theory Spec2Isabelle
  imports Complex_Main "HOL-Library.Word"
begin

section \<open>JavaScript values used by the voxel world\<close>

text \<open>
  Numbers are modelled exactly: block ids, grid coordinates and sizes are integers,
  every other number is a real. A thrown exception is a value of type \<open>error\<close>;
  a function that can throw returns \<open>error + 'a\<close>. An exception that escapes in the
  middle of a loop leaves the JavaScript object partly mutated; the model returns the error only.
\<close>

datatype error = TypeError | Error string

text \<open>
  Reading an array at an index that is not an element yields \<open>undefined\<close> (\<open>None\<close>).
  Writing at or beyond the length extends the array, the gap being holes; a write at a
  negative index sets a property that no indexed read of the program asks for, so it leaves
  the element list as it is.
\<close>

definition arr_get :: "'a list \<Rightarrow> int \<Rightarrow> 'a option" where
  "arr_get xs i = (if 0 \<le> i \<and> i < int (length xs) then Some (xs ! nat i) else None)"

definition arr_set :: "'a option list \<Rightarrow> int \<Rightarrow> 'a option \<Rightarrow> 'a option list" where
  "arr_set xs i v =
     (if i < 0 then xs
      else if i < int (length xs) then xs[nat i := v]
      else xs @ replicate (nat i - length xs) None @ [v])"

text \<open>Reading an element of an array with holes: a hole reads as \<open>undefined\<close> too.\<close>

definition cell_get :: "'a option list \<Rightarrow> int \<Rightarrow> 'a option" where
  "cell_get column z = (case arr_get column z of None \<Rightarrow> None | Some c \<Rightarrow> c)"

text \<open>Strings are sequences of UTF-16 code units.\<close>

type_synonym jsstring = "16 word list"

definition charCodeAt :: "jsstring \<Rightarrow> nat \<Rightarrow> int option" where
  "charCodeAt s i = (if i < length s then Some (uint (s ! i)) else None)"

definition fromCharCode :: "int \<Rightarrow> 16 word" where
  "fromCharCode n = word_of_int n"

text \<open>A loop whose body may throw: the first error ends it.\<close>

fun fold_err :: "('a \<Rightarrow> 's \<Rightarrow> error + 's) \<Rightarrow> 'a list \<Rightarrow> 's \<Rightarrow> error + 's" where
  "fold_err f [] s = Inr s"
| "fold_err f (a # as) s = (case f a s of Inl e \<Rightarrow> Inl e | Inr s' \<Rightarrow> fold_err f as s')"

text \<open>The iteration order of three nested counting loops, the first one outermost.\<close>

definition cells :: "int \<Rightarrow> int \<Rightarrow> int \<Rightarrow> (int \<times> int \<times> int) list" where
  "cells a b c = List.product [0..a - 1] (List.product [0..b - 1] [0..c - 1])"

section \<open>Block types (blocks.js)\<close>

datatype direction = UP | DOWN | LEFT | RIGHT | FORWARD | BACK

text \<open>
  A block object. \<open>bid\<close> is the \<open>id\<close> property: \<open>Some i\<close> for the number \<open>i\<close>, \<open>None\<close> for an
  object without an \<open>id\<close> property. An object whose \<open>id\<close> is present but not a number is
  outside the model (no block of the program has one). A flag holds the
  truthiness the program reads; a flag that the object lacks reads as the default that
  \<open>validateBlockType\<close> spreads under it. The texture functions of the program read only
  their \<open>lit\<close> and \<open>dir\<close> arguments and return an array of numbers.
\<close>

type_synonym texture_fn = "bool \<Rightarrow> direction \<Rightarrow> real list"

type_synonym meta = "(string \<times> string) list"

record block =
  bid :: "int option"
  spawnable :: bool
  transparent :: bool
  selflit :: bool
  gravity :: bool
  fluid :: bool
  texture :: "texture_fn option"
  xray :: bool
  rentgenView :: bool
  opacity :: "real option"
  metadata :: "meta option"

definition defaultTexture :: texture_fn where
  "defaultTexture lit dir = [0, 0, 1, 1]"

definition defaultBlock :: block where
  "defaultBlock = \<lparr> bid = Some 0, spawnable = False, transparent = True, selflit = False,
     gravity = False, fluid = False, texture = Some defaultTexture,
     xray = False, rentgenView = False, opacity = None, metadata = None \<rparr>"

definition validateTextureCoords :: "real list \<Rightarrow> real list" where
  "validateTextureCoords coords =
     (if length coords \<noteq> 4 then [0, 0, 1, 1]
      else map (\<lambda>coord. max 0 (min 1 coord)) coords)"

definition validateBlockType :: "block option \<Rightarrow> block" where
  "validateBlockType block =
     (case block of
        None \<Rightarrow> defaultBlock
      | Some b \<Rightarrow>
          b \<lparr> bid := (case bid b of None \<Rightarrow> Some 0 | Some i \<Rightarrow> Some i),
              texture := Some (\<lambda>lit dir. validateTextureCoords
                 ((case texture b of None \<Rightarrow> defaultTexture | Some t \<Rightarrow> t) lit dir)) \<rparr>)"

definition block_type :: "int \<Rightarrow> bool \<Rightarrow> bool \<Rightarrow> bool \<Rightarrow> bool \<Rightarrow> bool \<Rightarrow> texture_fn \<Rightarrow> block" where
  "block_type i sp tr sl gr fl tex = validateBlockType (Some
     \<lparr> bid = Some i, spawnable = sp, transparent = tr, selflit = sl, gravity = gr,
       fluid = fl, texture = Some tex, xray = False, rentgenView = False,
       opacity = None, metadata = None \<rparr>)"

definition BEDROCK :: block where
  "BEDROCK = block_type 1 False False False False False (\<lambda>lit dir. [1/16, 1/16, 2/16, 2/16])"

definition DIRT :: block where
  "DIRT = block_type 2 True False False False False
     (\<lambda>lit dir. if dir = UP \<and> lit then [14/16, 0/16, 15/16, 1/16]
                else if dir = DOWN \<or> \<not> lit then [2/16, 0/16, 3/16, 1/16]
                else [3/16, 0/16, 4/16, 1/16])"

definition WOOD :: block where
  "WOOD = block_type 3 True False False False False
     (\<lambda>lit dir. if dir = UP \<or> dir = DOWN then [5/16, 1/16, 6/16, 2/16]
                else [4/16, 1/16, 5/16, 2/16])"

definition TNT :: block where
  "TNT = block_type 4 True False False False False
     (\<lambda>lit dir. if dir = UP \<or> dir = DOWN then [10/16, 0/16, 11/16, 1/16]
                else [8/16, 0/16, 9/16, 1/16])"

definition BOOKCASE :: block where
  "BOOKCASE = block_type 5 True False False False False
     (\<lambda>lit dir. if dir = FORWARD \<or> dir = BACK then [3/16, 2/16, 4/16, 3/16]
                else [4/16, 0/16, 5/16, 1/16])"

definition LAVA :: block where
  "LAVA = block_type 6 False True True True True (\<lambda>lit dir. [13/16, 14/16, 14/16, 15/16])"

definition PLANK :: block where
  "PLANK = block_type 7 True False False False False (\<lambda>lit dir. [4/16, 0/16, 5/16, 1/16])"

definition COBBLESTONE :: block where
  "COBBLESTONE = block_type 8 True False False False False (\<lambda>lit dir. [0/16, 1/16, 1/16, 2/16])"

definition CONCRETE :: block where
  "CONCRETE = block_type 9 True False False False False (\<lambda>lit dir. [1/16, 0/16, 2/16, 1/16])"

definition BRICK :: block where
  "BRICK = block_type 10 True False False False False (\<lambda>lit dir. [7/16, 0/16, 8/16, 1/16])"

definition SAND :: block where
  "SAND = block_type 11 True False False True False (\<lambda>lit dir. [2/16, 1/16, 3/16, 2/16])"

definition GRAVEL :: block where
  "GRAVEL = block_type 12 True False False True False (\<lambda>lit dir. [3/16, 1/16, 4/16, 2/16])"

definition IRON :: block where
  "IRON = block_type 13 True False False False False (\<lambda>lit dir. [6/16, 1/16, 7/16, 2/16])"

definition GOLD :: block where
  "GOLD = block_type 14 True False False False False (\<lambda>lit dir. [7/16, 1/16, 8/16, 2/16])"

definition DIAMOND :: block where
  "DIAMOND = block_type 15 True False False False False (\<lambda>lit dir. [8/16, 1/16, 9/16, 2/16])"

definition OBSIDIAN :: block where
  "OBSIDIAN = block_type 16 True False False False False (\<lambda>lit dir. [5/16, 2/16, 6/16, 3/16])"

definition GLASS :: block where
  "GLASS = block_type 17 True True False False False (\<lambda>lit dir. [1/16, 3/16, 2/16, 4/16])"

definition SPONGE :: block where
  "SPONGE = block_type 18 True False False False False (\<lambda>lit dir. [0/16, 3/16, 1/16, 4/16])"

definition WATER :: block where
  "WATER = block_type 19 False True False True True (\<lambda>lit dir. [13/16, 12/16, 14/16, 13/16])"

definition LEAVES :: block where
  "LEAVES = block_type 20 True True False False False (\<lambda>lit dir. [4/16, 3/16, 5/16, 4/16])"

definition ROCK :: block where
  "ROCK = block_type 21 True False False False False (\<lambda>lit dir. [2/16, 2/16, 3/16, 3/16])"

definition AIR :: block where
  "AIR = block_type 0 False True False False False (\<lambda>lit dir. [0, 0, 0, 0])"

text \<open>The block-valued properties of \<open>BLOCK\<close>, in the order \<open>for ... in\<close> visits them.\<close>

definition block_types :: "block list" where
  "block_types = [BEDROCK, DIRT, WOOD, TNT, BOOKCASE, LAVA, PLANK, COBBLESTONE, CONCRETE,
     BRICK, SAND, GRAVEL, IRON, GOLD, DIAMOND, OBSIDIAN, GLASS, SPONGE, WATER, LEAVES,
     ROCK, AIR]"

definition fromId :: "int \<Rightarrow> block" where
  "fromId i =
     (if i < 0 then validateBlockType None
      else case find (\<lambda>t. bid t = Some i) block_types of
             Some t \<Rightarrow> validateBlockType (Some t)
           | None \<Rightarrow> validateBlockType None)"

section \<open>The renderer's bookkeeping (render.js)\<close>

record gl_buffer =
  handle :: nat
  vertices :: real
  vertex_data :: "real list"

record gl_context =
  live_buffers :: "nat list"
  next_handle :: nat
  context_lost :: bool

record chunk =
  chunk_start :: "int \<times> int \<times> int"
  chunk_end :: "int \<times> int \<times> int"
  dirty :: bool
  buffer :: "gl_buffer option"

record queue_entry =
  qx :: int
  qy :: int
  qz :: int
  priority :: real

datatype event = BlockChanged int int int

type_synonym vec4 = "real \<times> real \<times> real \<times> real"

record renderer =
  chunkSize :: int
  chunkMap :: "((int \<times> int \<times> int) \<times> chunk) list"
  chunks :: "chunk list"
  loadDistance :: int
  unloadDistance :: int
  maxChunksPerFrame :: int
  chunkLoadQueue :: "queue_entry list"
  camPos :: "(real \<times> real \<times> real) option"
  eventQueue :: "event list"
  frustumPlanes :: "vec4 list"
  projMatrix :: "real list"
  viewMatrix :: "real list"
  gl :: gl_context

definition onBlockChanged :: "renderer \<Rightarrow> int \<Rightarrow> int \<Rightarrow> int \<Rightarrow> renderer" where
  "onBlockChanged r x y z = r \<lparr> eventQueue := eventQueue r @ [BlockChanged x y z] \<rparr>"

section \<open>The world container (world.js)\<close>

type_synonym grid = "block option list list list"

record world =
  sx :: int
  sy :: int
  sz :: int
  blocks :: grid
  lightmap :: "int list list"
  spawnPoint :: "real \<times> real \<times> real"
  renderer :: "renderer option"

text \<open>\<open>blocks[x][y][z]\<close>: reading a property of \<open>undefined\<close> throws.\<close>

definition grid_get :: "grid \<Rightarrow> int \<Rightarrow> int \<Rightarrow> int \<Rightarrow> error + block option" where
  "grid_get bs x y z =
     (case arr_get bs x of
        None \<Rightarrow> Inl TypeError
      | Some plane \<Rightarrow>
          (case arr_get plane y of
             None \<Rightarrow> Inl TypeError
           | Some column \<Rightarrow> Inr (cell_get column z)))"

text \<open>\<open>blocks?.[x]?.[y]?.[z]\<close> and \<open>blocks[x]?.[y]?.[z]\<close> on an array \<open>blocks\<close>.\<close>

definition grid_get_opt :: "grid \<Rightarrow> int \<Rightarrow> int \<Rightarrow> int \<Rightarrow> block option" where
  "grid_get_opt bs x y z =
     (case arr_get bs x of
        None \<Rightarrow> None
      | Some plane \<Rightarrow>
          (case arr_get plane y of
             None \<Rightarrow> None
           | Some column \<Rightarrow> cell_get column z))"

text \<open>\<open>blocks[x][y][z] = v\<close>.\<close>

definition grid_set :: "grid \<Rightarrow> int \<Rightarrow> int \<Rightarrow> int \<Rightarrow> block option \<Rightarrow> error + grid" where
  "grid_set bs x y z v =
     (case arr_get bs x of
        None \<Rightarrow> Inl TypeError
      | Some plane \<Rightarrow>
          (case arr_get plane y of
             None \<Rightarrow> Inl TypeError
           | Some column \<Rightarrow> Inr (bs[nat x := plane[nat y := arr_set column z v]])))"

definition isInBounds :: "world \<Rightarrow> int \<Rightarrow> int \<Rightarrow> int \<Rightarrow> bool" where
  "isInBounds w x y z \<longleftrightarrow> x \<ge> 0 \<and> x < sx w \<and> y \<ge> 0 \<and> y < sy w \<and> z \<ge> 0 \<and> z < sz w"

definition validateBlock :: "block option \<Rightarrow> block" where
  "validateBlock block =
     (case block of
        None \<Rightarrow> AIR
      | Some b \<Rightarrow>
          (case bid b of
             None \<Rightarrow> AIR
           | Some i \<Rightarrow>
               if Some i = bid AIR then AIR
               else if rentgenView b then b \<lparr> transparent := True, opacity := Some 0.3 \<rparr>
               else if xray b then b \<lparr> transparent := True, opacity := Some 0.3 \<rparr>
               else validateBlockType (Some b)))"

text \<open>\<open>getBlock\<close> returns \<open>null\<close> (\<open>None\<close>) outside the grid.\<close>

definition getBlock :: "world \<Rightarrow> int \<Rightarrow> int \<Rightarrow> int \<Rightarrow> error + block option" where
  "getBlock w x y z =
     (if x < 0 \<or> y < 0 \<or> z < 0 \<or> x \<ge> sx w \<or> y \<ge> sy w \<or> z \<ge> sz w then Inr None
      else case grid_get (blocks w) x y z of
             Inl e \<Rightarrow> Inl e
           | Inr c \<Rightarrow> Inr (Some (validateBlock c)))"

text \<open>
  \<open>setBlock(x, y, z, type, metadata)\<close>; \<open>type\<close> may be \<open>null\<close>, and then \<open>type.xray\<close> throws.
  The result is the returned boolean and the world after the call.
\<close>

definition setBlock :: "world \<Rightarrow> int \<Rightarrow> int \<Rightarrow> int \<Rightarrow> block option \<Rightarrow> meta \<Rightarrow> error + bool \<times> world" where
  "setBlock w x y z type md =
     (if \<not> isInBounds w x y z then Inr (False, w)
      else case type of
        None \<Rightarrow> Inl TypeError
      | Some t \<Rightarrow>
          (let block = (if xray t then t \<lparr> transparent := True, opacity := Some 0.3 \<rparr>
                        else validateBlock (Some t))
           in case grid_set (blocks w) x y z (Some (block \<lparr> metadata := Some md \<rparr>)) of
                Inl e \<Rightarrow> Inl e
              | Inr bs \<Rightarrow>
                  Inr (True, w \<lparr> blocks := bs,
                                renderer := (case renderer w of
                                   None \<Rightarrow> None
                                 | Some r \<Rightarrow> if \<not> xray t then Some (onBlockChanged r x y z)
                                             else Some r) \<rparr>)))"

definition block_code :: "block \<Rightarrow> 16 word" where
  "block_code b = (case bid b of None \<Rightarrow> 0 | Some i \<Rightarrow> fromCharCode (97 + i))"

definition toNetworkString_cell :: "grid \<Rightarrow> int \<times> int \<times> int \<Rightarrow> jsstring \<Rightarrow> error + jsstring" where
  "toNetworkString_cell bs = (\<lambda>(x, y, z) blockArray.
     case grid_get bs x y z of
       Inl e \<Rightarrow> Inl e
     | Inr c \<Rightarrow> Inr (blockArray @ [block_code (validateBlock c)]))"

definition toNetworkString :: "world \<Rightarrow> error + jsstring" where
  "toNetworkString w =
     fold_err (toNetworkString_cell (blocks w)) (cells (sx w) (sy w) (sz w)) []"

definition block_of_code :: "int option \<Rightarrow> block" where
  "block_of_code c = (case c of None \<Rightarrow> validateBlockType None | Some n \<Rightarrow> fromId (n - 97))"

definition createFromString_cell :: "jsstring \<Rightarrow> int \<times> int \<times> int \<Rightarrow> nat \<times> grid \<Rightarrow> error + nat \<times> grid" where
  "createFromString_cell str = (\<lambda>(x, y, z) (i, bs).
     case grid_set bs x y z (Some (block_of_code (charCodeAt str i))) of
       Inl e \<Rightarrow> Inl e
     | Inr bs' \<Rightarrow> Inr (i + 1, bs'))"

definition createFromString :: "world \<Rightarrow> jsstring \<Rightarrow> error + world" where
  "createFromString w str =
     (if int (length str) \<noteq> sx w * sy w * sz w
      then Inl (Error ''String length does not match world dimensions.'')
      else case fold_err (createFromString_cell str) (cells (sx w) (sy w) (sz w)) (0, blocks w) of
             Inl e \<Rightarrow> Inl e
           | Inr (i, bs) \<Rightarrow> Inr (w \<lparr> blocks := bs \<rparr>))"

text \<open>The column scan of \<open>updateLighting\<close>: \<open>z\<close> runs from \<open>n - 1\<close> down to 0.\<close>

fun lighting_scan :: "grid \<Rightarrow> int \<Rightarrow> int \<Rightarrow> int \<Rightarrow> nat \<Rightarrow> error + int" where
  "lighting_scan bs x y maxZ 0 = Inr maxZ"
| "lighting_scan bs x y maxZ (Suc n) =
     (case grid_get bs x y (int n) of
        Inl e \<Rightarrow> Inl e
      | Inr None \<Rightarrow> Inl TypeError
      | Inr (Some b) \<Rightarrow> if \<not> transparent b then Inr (int n) else lighting_scan bs x y maxZ n)"

definition lightmap_set :: "int list list \<Rightarrow> int \<Rightarrow> int \<Rightarrow> int \<Rightarrow> error + int list list" where
  "lightmap_set lm x y v =
     (case arr_get lm x of
        None \<Rightarrow> Inl TypeError
      | Some row \<Rightarrow>
          Inr (lm[nat x := (if y < 0 then row
                            else if y < int (length row) then row[nat y := v]
                            else row @ replicate (nat y - length row) 0 @ [v])]))"

definition updateLighting :: "world \<Rightarrow> error + world" where
  "updateLighting w =
     (case fold_err (\<lambda>(x, y) lm.
                case lighting_scan (blocks w) x y (sz w - 1) (nat (sz w)) of
                  Inl e \<Rightarrow> Inl e
                | Inr maxZ \<Rightarrow> lightmap_set lm x y maxZ)
              (List.product [0..sx w - 1] [0..sy w - 1]) (lightmap w) of
        Inl e \<Rightarrow> Inl e
      | Inr lm \<Rightarrow> Inr (w \<lparr> lightmap := lm \<rparr>))"

text \<open>\<open>blocks[x][y]\<close> is an array.\<close>

definition grid_has :: "grid \<Rightarrow> int \<Rightarrow> int \<Rightarrow> bool" where
  "grid_has bs x y \<longleftrightarrow> 0 \<le> x \<and> x < int (length bs) \<and> 0 \<le> y \<and> y < int (length (bs ! nat x))"

text \<open>
  A world as the constructor leaves it: positive sizes, \<open>blocks\<close> an array of at least
  \<open>sx\<close> planes, each of the first \<open>sx\<close> planes an array of at least \<open>sy\<close> columns.
\<close>

definition grid_ok :: "world \<Rightarrow> bool" where
  "grid_ok w \<longleftrightarrow> 0 < sx w \<and> 0 < sy w \<and> 0 < sz w \<and> nat (sx w) \<le> length (blocks w) \<and>
     list_all (\<lambda>plane. nat (sy w) \<le> length plane) (take (nat (sx w)) (blocks w))"

section \<open>Example states\<close>

text \<open>A one-column world of two AIR cells with a renderer attached, and its single chunk built.\<close>

definition demo_renderer :: renderer where
  "demo_renderer = \<lparr> chunkSize = 16,
     chunkMap = [((0, 0, 0), \<lparr> chunk_start = (0, 0, 0), chunk_end = (1, 1, 2), dirty = False, buffer = None \<rparr>)],
     chunks = [], loadDistance = 8, unloadDistance = 12, maxChunksPerFrame = 2,
     chunkLoadQueue = [], camPos = None, eventQueue = [], frustumPlanes = [],
     projMatrix = [], viewMatrix = [],
     gl = \<lparr> live_buffers = [], next_handle = 0, context_lost = False \<rparr> \<rparr>"

definition demo_world :: world where
  "demo_world = \<lparr> sx = 1, sy = 1, sz = 2, blocks = [[[Some AIR, Some AIR]]], lightmap = [[1]],
     spawnPoint = (0, 0, 1), renderer = Some demo_renderer \<rparr>"

section \<open>Block equivalence\<close>

text \<open>Two block objects are equivalent when they agree on everything but the attached metadata.\<close>

definition block_equiv :: "block \<Rightarrow> block \<Rightarrow> bool" where
  "block_equiv a b \<longleftrightarrow> a \<lparr> metadata := None \<rparr> = b \<lparr> metadata := None \<rparr>"

text \<open>What a code unit reads back as after \<open>createFromString\<close> and \<open>toNetworkString\<close>.\<close>

definition code_norm :: "16 word \<Rightarrow> 16 word" where
  "code_norm c = (if 97 \<le> uint c \<and> uint c \<le> 118 then c else 97)"

section \<open>Mesh building (\<open>BLOCK.pushVertices\<close>, \<open>Renderer.buildChunk\<close>)\<close>

text \<open>\<open>Math.round(v * 4096) / 4096\<close>.\<close>

definition snap :: "real \<Rightarrow> real" where
  "snap v = of_int \<lfloor>v * 4096 + 1 / 2\<rfloor> / 4096"

text \<open>
  \<open>adjustTexture\<close> reads \<open>c[0]\<close> to \<open>c[3]\<close>. When one of them is missing the results are
  \<open>NaN\<close>, which \<open>pushQuad\<close> rejects: \<open>None\<close> stands for that.
\<close>

definition adjustTexture :: "real list \<Rightarrow> real list option" where
  "adjustTexture c =
     (if length c < 4 then None
      else let padding = 0.000244140625 in
        Some [min (c ! 0 + padding) (c ! 2 - padding),
              min (c ! 1 + padding) (c ! 3 - padding),
              max (c ! 0 + padding) (c ! 2 - padding),
              max (c ! 1 + padding) (c ! 3 - padding)])"

definition quad_vertex :: "real \<times> real \<times> real \<Rightarrow> real \<times> real \<Rightarrow> real \<Rightarrow> real list" where
  "quad_vertex pos tc lightLevel =
     (case (pos, tc) of
        ((p0, p1, p2), (t0, t1)) \<Rightarrow>
          [snap p0, snap p1, snap p2, t0, t1, lightLevel, lightLevel, lightLevel, 1])"

definition makeQuad :: "(real \<times> real \<times> real) list \<Rightarrow> (real \<times> real) list \<Rightarrow> real \<Rightarrow> real list list" where
  "makeQuad positions texCoords lightLevel =
     map2 (\<lambda>pos tc. quad_vertex pos tc lightLevel) positions texCoords"

text \<open>\<open>pushQuad\<close> appends two triangles, or nothing when a vertex is not nine numbers.\<close>

definition pushQuad :: "real list \<Rightarrow> real list list \<Rightarrow> real list" where
  "pushQuad vs quad =
     (case quad of
        [v1, v2, v3, v4] \<Rightarrow>
          if length v1 = 9 \<and> length v2 = 9 \<and> length v3 = 9 \<and> length v4 = 9
          then vs @ (v1 @ v2 @ v3) @ (v3 @ v4 @ v1)
          else vs
      | _ \<Rightarrow> vs)"

text \<open>\<open>blocks[x][y][z].transparent\<close> and \<open>blocks[x][y][z].fluid\<close> of a neighbour.\<close>

definition neighbour_flag :: "(block \<Rightarrow> bool) \<Rightarrow> grid \<Rightarrow> int \<Rightarrow> int \<Rightarrow> int \<Rightarrow> error + bool" where
  "neighbour_flag flag bs x y z =
     (case grid_get bs x y z of
        Inl e \<Rightarrow> Inl e
      | Inr None \<Rightarrow> Inl TypeError
      | Inr (Some b) \<Rightarrow> Inr (flag b))"

text \<open>The condition of each of the six face tests, in the order the source evaluates it.\<close>

fun face_visible :: "world \<Rightarrow> block \<Rightarrow> int \<Rightarrow> int \<Rightarrow> int \<Rightarrow> direction \<Rightarrow> error + bool" where
  "face_visible w block x y z UP =
     (if z = sz w - 1 then Inr True
      else case neighbour_flag transparent (blocks w) x y (z + 1) of
             Inl e \<Rightarrow> Inl e
           | Inr t \<Rightarrow> Inr (t \<or> fluid block))"
| "face_visible w block x y z DOWN =
     (if z = 0 then Inr True else neighbour_flag transparent (blocks w) x y (z - 1))"
| "face_visible w block x y z FORWARD =
     (if y = 0 then Inr True else neighbour_flag transparent (blocks w) x (y - 1) z)"
| "face_visible w block x y z BACK =
     (if y = sy w - 1 then Inr True else neighbour_flag transparent (blocks w) x (y + 1) z)"
| "face_visible w block x y z LEFT =
     (if x = 0 then Inr True else neighbour_flag transparent (blocks w) (x - 1) y z)"
| "face_visible w block x y z RIGHT =
     (if x = sx w - 1 then Inr True else neighbour_flag transparent (blocks w) (x + 1) y z)"

fun face_positions :: "direction \<Rightarrow> real \<Rightarrow> real \<Rightarrow> real \<Rightarrow> real \<Rightarrow> (real \<times> real \<times> real) list" where
  "face_positions UP x y z bH =
     [(x, y, z + bH), (x + 1, y, z + bH), (x + 1, y + 1, z + bH), (x, y + 1, z + bH)]"
| "face_positions DOWN x y z bH =
     [(x, y + 1, z), (x + 1, y + 1, z), (x + 1, y, z), (x, y, z)]"
| "face_positions FORWARD x y z bH =
     [(x, y, z), (x + 1, y, z), (x + 1, y, z + bH), (x, y, z + bH)]"
| "face_positions BACK x y z bH =
     [(x, y + 1, z + bH), (x + 1, y + 1, z + bH), (x + 1, y + 1, z), (x, y + 1, z)]"
| "face_positions LEFT x y z bH =
     [(x, y, z + bH), (x, y + 1, z + bH), (x, y + 1, z), (x, y, z)]"
| "face_positions RIGHT x y z bH =
     [(x + 1, y, z), (x + 1, y + 1, z), (x + 1, y + 1, z + bH), (x + 1, y, z + bH)]"

fun face_texCoords :: "direction \<Rightarrow> real list \<Rightarrow> (real \<times> real) list" where
  "face_texCoords UP c = [(c ! 0, c ! 1), (c ! 2, c ! 1), (c ! 2, c ! 3), (c ! 0, c ! 3)]"
| "face_texCoords DOWN c = [(c ! 0, c ! 3), (c ! 2, c ! 3), (c ! 2, c ! 1), (c ! 0, c ! 1)]"
| "face_texCoords FORWARD c = [(c ! 0, c ! 3), (c ! 2, c ! 3), (c ! 2, c ! 1), (c ! 0, c ! 1)]"
| "face_texCoords BACK c = [(c ! 0, c ! 1), (c ! 2, c ! 1), (c ! 2, c ! 3), (c ! 0, c ! 3)]"
| "face_texCoords LEFT c = [(c ! 0, c ! 1), (c ! 2, c ! 1), (c ! 2, c ! 3), (c ! 0, c ! 3)]"
| "face_texCoords RIGHT c = [(c ! 0, c ! 3), (c ! 2, c ! 3), (c ! 2, c ! 1), (c ! 0, c ! 1)]"

text \<open>The body of one face test: the quad of the face, pushed when the texture call succeeds.\<close>

definition push_face :: "block \<Rightarrow> bool \<Rightarrow> real \<Rightarrow> real \<Rightarrow> int \<Rightarrow> int \<Rightarrow> int \<Rightarrow> direction
    \<Rightarrow> real list \<Rightarrow> error + real list" where
  "push_face block blockLit bH lightLevel x y z dir vs =
     (case texture block of
        None \<Rightarrow> Inl TypeError
      | Some tex \<Rightarrow>
          (case adjustTexture (tex blockLit dir) of
             None \<Rightarrow> Inr vs
           | Some c \<Rightarrow>
               Inr (pushQuad vs (makeQuad (face_positions dir (of_int x) (of_int y) (of_int z) bH)
                                   (face_texCoords dir c) lightLevel))))"

definition face_order :: "direction list" where
  "face_order = [UP, DOWN, FORWARD, BACK, LEFT, RIGHT]"

text \<open>\<open>lightmap?.[x]?.[y] ? z >= lightmap[x][y] : true\<close>; the height 0 is falsy.\<close>

definition block_lit :: "int list list \<Rightarrow> int \<Rightarrow> int \<Rightarrow> int \<Rightarrow> bool" where
  "block_lit lm x y z =
     (case arr_get lm x of
        None \<Rightarrow> True
      | Some row \<Rightarrow> (case arr_get row y of
                       None \<Rightarrow> True
                     | Some h \<Rightarrow> if h = 0 then True else z \<ge> h))"

text \<open>\<open>block.fluid && (z == world.sz - 1 || !blocks[x][y][z+1].fluid)\<close>.\<close>

definition fluid_surface :: "world \<Rightarrow> block \<Rightarrow> int \<Rightarrow> int \<Rightarrow> int \<Rightarrow> error + bool" where
  "fluid_surface w block x y z =
     (if fluid block
      then (if z = sz w - 1 then Inr True
            else case neighbour_flag fluid (blocks w) x y (z + 1) of
                   Inl e \<Rightarrow> Inl e
                 | Inr f \<Rightarrow> Inr (\<not> f))
      else Inr False)"

definition push_faces :: "world \<Rightarrow> block \<Rightarrow> bool \<Rightarrow> real \<Rightarrow> real \<Rightarrow> int \<Rightarrow> int \<Rightarrow> int
    \<Rightarrow> real list \<Rightarrow> error + real list" where
  "push_faces w block blockLit bH color x y z vs =
     fold_err (\<lambda>dir vs'.
                 case face_visible w block x y z dir of
                   Inl e \<Rightarrow> Inl e
                 | Inr False \<Rightarrow> Inr vs'
                 | Inr True \<Rightarrow> push_face block blockLit bH color x y z dir vs')
       face_order vs"

definition pushVertices :: "real list \<Rightarrow> world \<Rightarrow> int list list \<Rightarrow> int \<Rightarrow> int \<Rightarrow> int \<Rightarrow> error + real list" where
  "pushVertices vs w lm x y z =
     (case grid_get_opt (blocks w) x y z of
        None \<Rightarrow> Inr vs
      | Some block \<Rightarrow>
          if bid block = bid AIR then Inr vs
          else
            let blockLit = block_lit lm x y z
            in case fluid_surface w block x y z of
                 Inl e \<Rightarrow> Inl e
               | Inr surface \<Rightarrow>
                   let bH = (if surface then 0.9 else 1.0);
                       color = (if selflit block then 1.0 else if blockLit then 1.0 else 0.6)
                   in push_faces w block blockLit bH color x y z vs)"

text \<open>WebGL buffers: \<open>createBuffer\<close> returns \<open>null\<close> once the context is lost.\<close>

definition createBuffer :: "gl_context \<Rightarrow> nat option \<times> gl_context" where
  "createBuffer g =
     (if context_lost g then (None, g)
      else (Some (next_handle g),
            g \<lparr> live_buffers := live_buffers g @ [next_handle g],
                next_handle := next_handle g + 1 \<rparr>))"

definition deleteBuffer :: "gl_context \<Rightarrow> nat \<Rightarrow> gl_context" where
  "deleteBuffer g h = g \<lparr> live_buffers := removeAll h (live_buffers g) \<rparr>"

definition cells_between :: "int \<times> int \<times> int \<Rightarrow> int \<times> int \<times> int \<Rightarrow> (int \<times> int \<times> int) list" where
  "cells_between s e =
     (case (s, e) of ((x0, y0, z0), (x1, y1, z1)) \<Rightarrow>
        List.product [x0..x1 - 1] (List.product [y0..y1 - 1] [z0..z1 - 1]))"

definition buildChunk_cell :: "world \<Rightarrow> int \<times> int \<times> int \<Rightarrow> real list \<Rightarrow> error + real list" where
  "buildChunk_cell w = (\<lambda>(x, y, z) vertexData.
     if map_option bid (grid_get_opt (blocks w) x y z) \<noteq> Some (bid AIR)
     then pushVertices vertexData w (lightmap w) x y z
     else Inr vertexData)"

definition buildChunk :: "gl_context \<Rightarrow> world \<Rightarrow> chunk \<Rightarrow> error + gl_context \<times> chunk" where
  "buildChunk g w c =
     (case fold_err (buildChunk_cell w) (cells_between (chunk_start c) (chunk_end c)) [] of
        Inl e \<Rightarrow> Inl e
      | Inr vertexData \<Rightarrow>
          if length vertexData > 0 then
            (let g1 = (case buffer c of None \<Rightarrow> g | Some b \<Rightarrow> deleteBuffer g (handle b))
             in case createBuffer g1 of
                  (None, g2) \<Rightarrow> Inl (Error ''Failed to create WebGL buffer'')
                | (Some h, g2) \<Rightarrow>
                    Inr (g2, c \<lparr> dirty := False,
                                 buffer := Some \<lparr> handle = h,
                                                  vertices = real (length vertexData) / 9,
                                                  vertex_data = vertexData \<rparr> \<rparr>))
          else Inr (g, c \<lparr> dirty := False \<rparr>))"

section \<open>The face rule in the words of the specification\<close>

text \<open>The cell on the given side of \<open>(x, y, z)\<close>.\<close>

fun neighbour :: "direction \<Rightarrow> int \<Rightarrow> int \<Rightarrow> int \<Rightarrow> int \<times> int \<times> int" where
  "neighbour UP x y z = (x, y, z + 1)"
| "neighbour DOWN x y z = (x, y, z - 1)"
| "neighbour FORWARD x y z = (x, y - 1, z)"
| "neighbour BACK x y z = (x, y + 1, z)"
| "neighbour LEFT x y z = (x - 1, y, z)"
| "neighbour RIGHT x y z = (x + 1, y, z)"

text \<open>The neighbour on that side is transparent, the world edge counting as transparent.\<close>

definition face_open :: "world \<Rightarrow> int \<Rightarrow> int \<Rightarrow> int \<Rightarrow> direction \<Rightarrow> bool" where
  "face_open w x y z dir =
     (case neighbour dir x y z of (nx, ny, nz) \<Rightarrow>
        if isInBounds w nx ny nz
        then (case grid_get_opt (blocks w) nx ny nz of None \<Rightarrow> False | Some nb \<Rightarrow> transparent nb)
        else True)"

text \<open>Every cell inside the bounds holds a block object.\<close>

definition world_dense :: "world \<Rightarrow> bool" where
  "world_dense w \<longleftrightarrow> grid_ok w \<and>
     list_all (\<lambda>(x, y, z). grid_get_opt (blocks w) x y z \<noteq> None) (cells (sx w) (sy w) (sz w))"

text \<open>A block whose texture function is present and returns at least four numbers.\<close>

definition textured :: "block \<Rightarrow> bool" where
  "textured b = (case texture b of
                   None \<Rightarrow> False
                 | Some tex \<Rightarrow> list_all (\<lambda>dir. 4 \<le> length (tex True dir) \<and> 4 \<le> length (tex False dir))
                                 face_order)"

text \<open>A 10 x 10 x 10 world of AIR with one DIRT block at \<open>(5, 5, 5)\<close>, lit by \<open>updateLighting\<close>.\<close>

definition single_dirt_world :: world where
  "single_dirt_world =
     \<lparr> sx = 10, sy = 10, sz = 10,
       blocks = (replicate 10 (replicate 10 (replicate 10 (Some AIR))))
                  [5 := (replicate 10 (replicate 10 (Some AIR)))
                          [5 := (replicate 10 (Some AIR))[5 := Some DIRT]]],
       lightmap = (replicate 10 (replicate 10 9))[5 := (replicate 10 9)[5 := 5]],
       spawnPoint = (5, 5, 6), renderer = None \<rparr>"

text \<open>A column of WATER under DIRT.\<close>

definition water_under_dirt :: world where
  "water_under_dirt = \<lparr> sx = 1, sy = 1, sz = 2, blocks = [[[Some WATER, Some DIRT]]],
     lightmap = [[1]], spawnPoint = (0, 0, 1), renderer = None \<rparr>"

text \<open>The 54 numbers that \<open>pushQuad\<close> appends for a face of a block.\<close>

definition quad_data :: "block \<Rightarrow> bool \<Rightarrow> real \<Rightarrow> real \<Rightarrow> int \<Rightarrow> int \<Rightarrow> int \<Rightarrow> direction \<Rightarrow> real list" where
  "quad_data block blockLit bH lightLevel x y z dir =
     pushQuad [] (makeQuad (face_positions dir (of_int x) (of_int y) (of_int z) bH)
        (face_texCoords dir (the (adjustTexture (the (texture block) blockLit dir)))) lightLevel)"

text \<open>The side facing back.\<close>

fun opposite :: "direction \<Rightarrow> direction" where
  "opposite UP = DOWN"
| "opposite DOWN = UP"
| "opposite FORWARD = BACK"
| "opposite BACK = FORWARD"
| "opposite LEFT = RIGHT"
| "opposite RIGHT = LEFT"

text \<open>Two DIRT blocks side by side.\<close>

definition dirt_pair :: world where
  "dirt_pair = \<lparr> sx = 2, sy = 1, sz = 1, blocks = [[[Some DIRT]], [[Some DIRT]]],
     lightmap = [[0], [0]], spawnPoint = (0, 0, 0), renderer = None \<rparr>"

text \<open>The chunk that \<open>createChunk(0, 0, 0)\<close> sets up in the 10 x 10 x 10 world (chunk size 16).\<close>

definition single_dirt_chunk :: chunk where
  "single_dirt_chunk = \<lparr> chunk_start = (0, 0, 0), chunk_end = (10, 10, 10), dirty = True, buffer = None \<rparr>"

section \<open>Chunk streaming (\<open>Renderer.updateChunksAroundPlayer\<close>)\<close>

text \<open>
  The key of a chunk is the string of its three chunk coordinates; the model keeps the
  triple. \<open>Math.floor(x / chunkSize)\<close> on integers is \<open>div\<close> (for a chunk size other than 0).
  \<open>chunkMap\<close> is a \<open>Map\<close>: \<open>set\<close> replaces the value of a present key in place and appends a
  new key at the end.
\<close>

definition getChunkKey :: "renderer \<Rightarrow> int \<Rightarrow> int \<Rightarrow> int \<Rightarrow> int \<times> int \<times> int" where
  "getChunkKey r x y z = (x div chunkSize r, y div chunkSize r, z div chunkSize r)"

fun map_set :: "'k \<Rightarrow> 'v \<Rightarrow> ('k \<times> 'v) list \<Rightarrow> ('k \<times> 'v) list" where
  "map_set k v [] = [(k, v)]"
| "map_set k v (p # ps) = (if fst p = k then (k, v) # ps else p # map_set k v ps)"

definition createChunk :: "renderer \<Rightarrow> world \<Rightarrow> int \<Rightarrow> int \<Rightarrow> int \<Rightarrow> error + renderer" where
  "createChunk r w x y z =
     (let chunk = \<lparr> chunk_start = (x, y, z),
                     chunk_end = (min (x + chunkSize r) (sx w), min (y + chunkSize r) (sy w),
                                  min (z + chunkSize r) (sz w)),
                     dirty = True, buffer = None \<rparr>;
          key = getChunkKey r x y z
      in case buildChunk (gl r) w chunk of
           Inl e \<Rightarrow> Inl e
         | Inr (g, built) \<Rightarrow> Inr (r \<lparr> chunkMap := map_set key built (chunkMap r), gl := g \<rparr>))"

text \<open>The \<open>while\<close> loop of \<open>processChunkQueue\<close>, on the queue that is left.\<close>

fun processChunkQueue_loop :: "world \<Rightarrow> int \<Rightarrow> int \<Rightarrow> queue_entry list \<Rightarrow> renderer \<Rightarrow> error + renderer" where
  "processChunkQueue_loop w maxChunks processed [] r = Inr (r \<lparr> chunkLoadQueue := [] \<rparr>)"
| "processChunkQueue_loop w maxChunks processed (c # q) r =
     (if processed < maxChunks
      then (case createChunk r w (qx c) (qy c) (qz c) of
              Inl e \<Rightarrow> Inl e
            | Inr r' \<Rightarrow> processChunkQueue_loop w maxChunks (processed + 1) q r')
      else Inr (r \<lparr> chunkLoadQueue := c # q \<rparr>))"

definition processChunkQueue :: "renderer \<Rightarrow> world \<Rightarrow> error + renderer" where
  "processChunkQueue r w = processChunkQueue_loop w (maxChunksPerFrame r) 0 (chunkLoadQueue r) r"

text \<open>The view direction, computed from the first two entries of \<open>camPos\<close>.\<close>

definition viewVector :: "real \<times> real \<times> real \<Rightarrow> real \<times> real \<times> real" where
  "viewVector cam = (case cam of (c0, c1, c2) \<Rightarrow> (cos c1 * cos c0, sin c1 * cos c0, sin c0))"

definition chunk_distance :: "int \<times> int \<times> int \<Rightarrow> int \<times> int \<times> int \<Rightarrow> real" where
  "chunk_distance c p =
     (case (c, p) of ((x, y, z), (px, py, pz)) \<Rightarrow>
        sqrt (of_int ((x - px) * (x - px) + (y - py) * (y - py) + (z - pz) * (z - pz))))"

text \<open>One iteration of the innermost loop that fills the load queue: at most one entry is pushed.\<close>

definition load_entry :: "renderer \<Rightarrow> world \<Rightarrow> int \<times> int \<times> int \<Rightarrow> real \<times> real \<times> real
    \<Rightarrow> int \<times> int \<times> int \<Rightarrow> queue_entry option" where
  "load_entry r w p view c =
     (case (c, p, view) of ((x, y, z), (px, py, pz), (vx, vy, vz)) \<Rightarrow>
        if \<not> isInBounds w (x * chunkSize r) (y * chunkSize r) (z * chunkSize r) then None
        else
          let dx = x - px; dy = y - py; dz = z - pz;
              distance = chunk_distance (x, y, z) (px, py, pz)
          in if distance \<le> of_int (loadDistance r)
             then
               let key = getChunkKey r (x * chunkSize r) (y * chunkSize r) (z * chunkSize r);
                   chunk = map_of (chunkMap r) key;
                   viewAlignment = of_int dx * vx + of_int dy * vy + of_int dz * vz;
                   priority = distance - (if viewAlignment > 0 then 2 else 0)
               in (case chunk of
                     None \<Rightarrow> Some \<lparr> qx = x * chunkSize r, qy = y * chunkSize r,
                                    qz = z * chunkSize r, priority = priority \<rparr>
                   | Some ch \<Rightarrow> None)
             else None)"

definition load_candidates :: "renderer \<Rightarrow> int \<times> int \<times> int \<Rightarrow> (int \<times> int \<times> int) list" where
  "load_candidates r p =
     (case p of (px, py, pz) \<Rightarrow>
        List.product [px - loadDistance r .. px + loadDistance r]
          (List.product [py - loadDistance r .. py + loadDistance r]
                        [pz - loadDistance r .. pz + loadDistance r]))"

text \<open>The queue after the fill loop and the sort by priority (the sort is stable).\<close>

definition load_queue :: "renderer \<Rightarrow> world \<Rightarrow> int \<times> int \<times> int \<Rightarrow> real \<times> real \<times> real \<Rightarrow> queue_entry list" where
  "load_queue r w p view =
     sort_key priority (List.map_filter (load_entry r w p view) (load_candidates r p))"

text \<open>The unload loop: the buffers of the distant chunks are deleted, their entries removed.\<close>

definition unload_step :: "renderer \<Rightarrow> int \<times> int \<times> int \<Rightarrow> gl_context \<Rightarrow> (int \<times> int \<times> int) \<times> chunk \<Rightarrow> gl_context" where
  "unload_step r p = (\<lambda>g (key, chunk).
     if chunk_distance key p > of_int (unloadDistance r)
     then (case buffer chunk of None \<Rightarrow> g | Some b \<Rightarrow> deleteBuffer g (handle b))
     else g)"

definition unload_gl :: "renderer \<Rightarrow> int \<times> int \<times> int \<Rightarrow> gl_context" where
  "unload_gl r p = foldl (unload_step r p) (gl r) (chunkMap r)"

definition unload_map :: "renderer \<Rightarrow> int \<times> int \<times> int \<Rightarrow> ((int \<times> int \<times> int) \<times> chunk) list" where
  "unload_map r p =
     filter (\<lambda>(key, chunk). \<not> chunk_distance key p > of_int (unloadDistance r)) (chunkMap r)"

definition player_chunk :: "renderer \<Rightarrow> real \<times> real \<times> real \<Rightarrow> int \<times> int \<times> int" where
  "player_chunk r playerPos =
     (case playerPos of (x, y, z) \<Rightarrow>
        (\<lfloor>x / of_int (chunkSize r)\<rfloor>, \<lfloor>y / of_int (chunkSize r)\<rfloor>, \<lfloor>z / of_int (chunkSize r)\<rfloor>))"

definition updateChunksAroundPlayer :: "renderer \<Rightarrow> world \<Rightarrow> real \<times> real \<times> real \<Rightarrow> error + renderer" where
  "updateChunksAroundPlayer r w playerPos =
     (case camPos r of
        None \<Rightarrow> Inl TypeError
      | Some cam \<Rightarrow>
          let p = player_chunk r playerPos;
              queue = load_queue r w p (viewVector cam)
          in processChunkQueue
               (r \<lparr> chunkLoadQueue := queue, chunkMap := unload_map r p, gl := unload_gl r p \<rparr>) w)"

section \<open>The camera and the view frustum\<close>

text \<open>
  The operations of the gl-matrix library that the renderer calls, as the library computes
  them on its column-major arrays of 16 numbers: entry \<open>(row, col)\<close> of a matrix is element
  \<open>col * 4 + row\<close>. The library keeps matrices and vectors in \<open>Float32Array\<close>, so the
  program rounds every component it stores to single precision; the model computes over the
  reals and agrees with the program up to that rounding only. A computed number that is exactly
  0 in the model need not be 0 in the program, so nothing below is concluded from the sign of a
  computed number unless it is away from 0 by far more than the rounding.
\<close>

definition mat4_identity :: "real list" where
  "mat4_identity = [1, 0, 0, 0,  0, 1, 0, 0,  0, 0, 1, 0,  0, 0, 0, 1]"

definition mat4_col :: "real list \<Rightarrow> nat \<Rightarrow> real list" where
  "mat4_col m c = [m ! (c * 4), m ! (c * 4 + 1), m ! (c * 4 + 2), m ! (c * 4 + 3)]"

definition mat4_row :: "real list \<Rightarrow> nat \<Rightarrow> real list" where
  "mat4_row m r = [m ! r, m ! (4 + r), m ! (8 + r), m ! (12 + r)]"

definition vec_add :: "real list \<Rightarrow> real list \<Rightarrow> real list" where
  "vec_add a b = map2 (+) a b"

definition vec_scale :: "real \<Rightarrow> real list \<Rightarrow> real list" where
  "vec_scale k a = map ((*) k) a"

definition vec_dot :: "real list \<Rightarrow> real list \<Rightarrow> real" where
  "vec_dot a b = sum_list (map2 (*) a b)"

definition mat4_multiply :: "real list \<Rightarrow> real list \<Rightarrow> real list" where
  "mat4_multiply a b =
     concat (map (\<lambda>c. map (\<lambda>r. vec_dot (mat4_row a r) (mat4_col b c)) [0..<4]) [0..<4])"

definition mat4_rotateX :: "real list \<Rightarrow> real \<Rightarrow> real list" where
  "mat4_rotateX a rad =
     mat4_col a 0
     @ vec_add (vec_scale (cos rad) (mat4_col a 1)) (vec_scale (sin rad) (mat4_col a 2))
     @ vec_add (vec_scale (cos rad) (mat4_col a 2)) (vec_scale (- sin rad) (mat4_col a 1))
     @ mat4_col a 3"

definition mat4_rotateY :: "real list \<Rightarrow> real \<Rightarrow> real list" where
  "mat4_rotateY a rad =
     vec_add (vec_scale (cos rad) (mat4_col a 0)) (vec_scale (- sin rad) (mat4_col a 2))
     @ mat4_col a 1
     @ vec_add (vec_scale (sin rad) (mat4_col a 0)) (vec_scale (cos rad) (mat4_col a 2))
     @ mat4_col a 3"

definition mat4_rotateZ :: "real list \<Rightarrow> real \<Rightarrow> real list" where
  "mat4_rotateZ a rad =
     vec_add (vec_scale (cos rad) (mat4_col a 0)) (vec_scale (sin rad) (mat4_col a 1))
     @ vec_add (vec_scale (cos rad) (mat4_col a 1)) (vec_scale (- sin rad) (mat4_col a 0))
     @ mat4_col a 2
     @ mat4_col a 3"

definition mat4_translate :: "real list \<Rightarrow> real \<times> real \<times> real \<Rightarrow> real list" where
  "mat4_translate a v =
     (case v of (x, y, z) \<Rightarrow>
        mat4_col a 0 @ mat4_col a 1 @ mat4_col a 2
        @ vec_add (vec_add (vec_scale x (mat4_col a 0)) (vec_scale y (mat4_col a 1)))
                  (vec_add (vec_scale z (mat4_col a 2)) (mat4_col a 3)))"

definition mat4_perspectiveNO :: "real \<Rightarrow> real \<Rightarrow> real \<Rightarrow> real \<Rightarrow> real list" where
  "mat4_perspectiveNO fovy aspect near far =
     (let f = 1 / tan (fovy / 2); nf = 1 / (near - far)
      in [f / aspect, 0, 0, 0,
          0, f, 0, 0,
          0, 0, (far + near) * nf, - 1,
          0, 0, 2 * far * near * nf, 0])"

definition vec4_dot :: "vec4 \<Rightarrow> vec4 \<Rightarrow> real" where
  "vec4_dot a b =
     (case (a, b) of ((a0, a1, a2, a3), (b0, b1, b2, b3)) \<Rightarrow> a0 * b0 + a1 * b1 + a2 * b2 + a3 * b3)"

definition vec4_normalize :: "vec4 \<Rightarrow> vec4" where
  "vec4_normalize a =
     (case a of (x, y, z, w) \<Rightarrow>
        let len = x * x + y * y + z * z + w * w;
            k = (if len > 0 then 1 / sqrt len else len)
        in (x * k, y * k, z * k, w * k))"

definition setPerspective :: "renderer \<Rightarrow> real \<Rightarrow> real \<Rightarrow> real \<Rightarrow> real \<Rightarrow> renderer" where
  "setPerspective r fov aspect near far = r \<lparr> projMatrix := mat4_perspectiveNO fov aspect near far \<rparr>"

text \<open>\<open>setCamera(pos, ang)\<close>: \<open>ang\<close> is pitch, yaw and roll.\<close>

definition setCamera :: "renderer \<Rightarrow> real \<times> real \<times> real \<Rightarrow> real \<times> real \<times> real \<Rightarrow> renderer" where
  "setCamera r pos ang =
     (case (pos, ang) of ((p0, p1, p2), (a0, a1, a2)) \<Rightarrow>
        r \<lparr> camPos := Some pos,
            viewMatrix :=
              mat4_translate
                (mat4_rotateY (mat4_rotateZ (mat4_rotateX mat4_identity (- a0 - pi / 2)) a1) (- a2))
                (- p0, - p1, - p2) \<rparr>)"

text \<open>
  \<open>updateFrustumPlanes\<close>: a plane is the last row of the product matrix plus or minus one of
  its first three rows, normalised. The program keeps the product and the planes in
  \<open>Float32Array\<close>; the note at the head of this section applies.
\<close>

definition frustum_plane :: "real list \<Rightarrow> nat \<Rightarrow> real \<Rightarrow> vec4" where
  "frustum_plane m i sign =
     vec4_normalize (m ! 3 + sign * m ! i, m ! 7 + sign * m ! (4 + i),
                     m ! 11 + sign * m ! (8 + i), m ! 15 + sign * m ! (12 + i))"

definition updateFrustumPlanes :: "renderer \<Rightarrow> renderer" where
  "updateFrustumPlanes r =
     (let m = mat4_multiply (projMatrix r) (viewMatrix r)
      in r \<lparr> frustumPlanes :=
                [frustum_plane m 0 1, frustum_plane m 0 (- 1),
                 frustum_plane m 1 1, frustum_plane m 1 (- 1),
                 frustum_plane m 2 1, frustum_plane m 2 (- 1)] \<rparr>)"

text \<open>The eight corners that \<open>isChunkInFrustum\<close> tests, in the order of the source.\<close>

definition chunk_corners :: "chunk \<Rightarrow> vec4 list" where
  "chunk_corners c =
     (case (chunk_start c, chunk_end c) of ((s0, s1, s2), (e0, e1, e2)) \<Rightarrow>
        [(of_int s0, of_int s1, of_int s2, 1), (of_int e0, of_int s1, of_int s2, 1),
         (of_int s0, of_int e1, of_int s2, 1), (of_int e0, of_int e1, of_int s2, 1),
         (of_int s0, of_int s1, of_int e2, 1), (of_int e0, of_int s1, of_int e2, 1),
         (of_int s0, of_int e1, of_int e2, 1), (of_int e0, of_int e1, of_int e2, 1)])"

definition plane_rejects :: "vec4 \<Rightarrow> chunk \<Rightarrow> bool" where
  "plane_rejects plane c = list_all (\<lambda>corner. vec4_dot plane corner < 0) (chunk_corners c)"

text \<open>
  The loop of \<open>isChunkInFrustum\<close>: round \<open>i\<close> reads \<open>frustumPlanes[i]\<close>, for \<open>i\<close> from 0 to
  5. The first plane that has all eight corners on its negative side ends the loop with
  \<open>false\<close>; a missing plane makes \<open>vec4.dot\<close> throw when the loop reaches it. The first argument
  counts the rounds left, the second holds the planes from index \<open>i\<close> on.
\<close>

fun isChunkInFrustum_loop :: "nat \<Rightarrow> vec4 list \<Rightarrow> chunk \<Rightarrow> error + bool" where
  "isChunkInFrustum_loop 0 planes c = Inr True"
| "isChunkInFrustum_loop (Suc n) [] c = Inl TypeError"
| "isChunkInFrustum_loop (Suc n) (plane # planes) c =
     (if plane_rejects plane c then Inr False else isChunkInFrustum_loop n planes c)"

definition isChunkInFrustum :: "renderer \<Rightarrow> chunk \<Rightarrow> error + bool" where
  "isChunkInFrustum r c = isChunkInFrustum_loop 6 (frustumPlanes r) c"

text \<open>
  A camera with the renderer's perspective (\<open>fov\<close> pi/4, near 0.1, far 1000) and the
  player's initial angles \<open>[0, pi, 0]\<close>, standing at \<open>(8, 0.05, 8)\<close> inside the chunk
  from \<open>(0, 0, 0)\<close> to \<open>(16, 16, 16)\<close>.
\<close>

definition camera_renderer :: renderer where
  "camera_renderer =
     updateFrustumPlanes
       (setCamera (setPerspective demo_renderer (pi / 4) 1 (1 / 10) 1000) (8, 1 / 20, 8) (0, pi, 0))"

definition camera_chunk :: chunk where
  "camera_chunk = \<lparr> chunk_start = (0, 0, 0), chunk_end = (16, 16, 16), dirty = False, buffer = None \<rparr>"

text \<open>A renderer that holds a single plane, which has every point on its negative side.\<close>

definition one_plane_renderer :: renderer where
  "one_plane_renderer = demo_renderer \<lparr> frustumPlanes := [(0, 0, 0, - 1)] \<rparr>"

section \<open>Conditions under which a streaming pass runs to its end\<close>

text \<open>Every cell inside the bounds holds a block object with a texture function.\<close>

definition world_meshable :: "world \<Rightarrow> bool" where
  "world_meshable w \<longleftrightarrow> world_dense w \<and>
     list_all (\<lambda>(x, y, z). case grid_get_opt (blocks w) x y z of None \<Rightarrow> False | Some b \<Rightarrow> textured b)
       (cells (sx w) (sy w) (sz w))"

text \<open>The buffer of every loaded chunk was handed out by \<open>createBuffer\<close>.\<close>

definition buffers_allocated :: "renderer \<Rightarrow> bool" where
  "buffers_allocated r \<longleftrightarrow>
     list_all (\<lambda>(key, c). case buffer c of None \<Rightarrow> True | Some b \<Rightarrow> handle b < next_handle (gl r))
       (chunkMap r)"

text \<open>The chunk key under which a queue entry is materialised.\<close>

definition entry_key :: "renderer \<Rightarrow> queue_entry \<Rightarrow> int \<times> int \<times> int" where
  "entry_key r e = getChunkKey r (qx e) (qy e) (qz e)"

text \<open>
  A renderer over the 10 x 10 x 10 world with \<open>loadDistance\<close> 3 and \<open>unloadDistance\<close> 5, the
  camera at the origin, and one loaded chunk, nine chunks away, that owns buffer 0.
\<close>

definition stream_renderer :: renderer where
  "stream_renderer = \<lparr> chunkSize = 16,
     chunkMap = [((9, 0, 0), \<lparr> chunk_start = (144, 0, 0), chunk_end = (160, 16, 16), dirty = False,
                    buffer = Some \<lparr> handle = 0, vertices = 6, vertex_data = replicate 54 0 \<rparr> \<rparr>)],
     chunks = [], loadDistance = 3, unloadDistance = 5, maxChunksPerFrame = 2,
     chunkLoadQueue = [], camPos = Some (0, 0, 0), eventQueue = [], frustumPlanes = [],
     projMatrix = [], viewMatrix = [],
     gl = \<lparr> live_buffers = [0], next_handle = 1, context_lost = False \<rparr> \<rparr>"

section \<open>Terrain generation and world creation (world.js)\<close>

text \<open>
  The simplex noise \<open>createNoise3D(alea('minecraft'))\<close> comes from two libraries; it is a fixed
  function of three numbers and is the parameter \<open>noise3D\<close> of the model. The Perlin noise
  \<open>this.perlin.noise3D\<close> reads a constant permutation table and is the parameter \<open>perlin\<close>.
  \<open>Math.random()\<close> is a stream \<open>rnd\<close>: the call number \<open>k\<close> of a run returns \<open>rnd k\<close>, and the
  state of a run carries the number of calls made so far next to the block array.
\<close>

type_synonym noise = "real \<Rightarrow> real \<Rightarrow> real \<Rightarrow> real"

text \<open>\<open>blocks[x][y][z] = this.validateBlock(b)\<close>.\<close>

definition set_validated :: "grid \<Rightarrow> int \<Rightarrow> int \<Rightarrow> int \<Rightarrow> block \<Rightarrow> error + grid" where
  "set_validated bs x y z b = grid_set bs x y z (Some (validateBlock (Some b)))"

text \<open>\<open>blocks[x][y][z]?.id\<close>: \<open>undefined\<close> (\<open>None\<close>) for a missing cell.\<close>

definition cell_id :: "grid \<Rightarrow> int \<Rightarrow> int \<Rightarrow> int \<Rightarrow> error + int option" where
  "cell_id bs x y z =
     (case grid_get bs x y z of
        Inl e \<Rightarrow> Inl e
      | Inr c \<Rightarrow> Inr (case c of None \<Rightarrow> None | Some b \<Rightarrow> bid b))"

text \<open>One round of the octave loop; the state is \<open>(heightValue, amp, freq, totalAmp)\<close>.\<close>

definition octave :: "noise \<Rightarrow> int \<Rightarrow> int \<Rightarrow> nat \<Rightarrow> real \<times> real \<times> real \<times> real \<Rightarrow> real \<times> real \<times> real \<times> real" where
  "octave noise3D x y oc = (\<lambda>(heightValue, amp, freq, totalAmp).
     (heightValue + amp * noise3D (of_int x * freq / 24) (of_int y * freq / 24) 0,
      amp * 0.5, freq * 2, totalAmp + amp))"

definition finalHeight :: "noise \<Rightarrow> int \<Rightarrow> int \<Rightarrow> int \<Rightarrow> int" where
  "finalHeight noise3D sZ x y =
     (case fold (octave noise3D x y) [0..<4] (0, 1, 1, 0) of
        (heightValue, amp, freq, totalAmp) \<Rightarrow>
          \<lfloor>of_int \<lfloor>of_int sZ * 0.5 :: real\<rfloor> + (heightValue / totalAmp + 1) * 0.5 * (of_int sZ / 2) * 0.3\<rfloor>)"

definition terrain_block :: "int \<Rightarrow> int \<Rightarrow> int \<Rightarrow> block" where
  "terrain_block z finalH waterLevel =
     (if z = 0 then BEDROCK
      else if z < finalH - 4 then ROCK
      else if z < finalH - 1 then DIRT
      else if z < finalH then DIRT
      else if z \<le> waterLevel then WATER
      else AIR)"

text \<open>The leaf positions of \<open>addTree\<close>, relative to \<open>(x, y, leafStart)\<close>, in loop order.\<close>

definition leaf_radius :: "int \<Rightarrow> int" where
  "leaf_radius lz = (if lz = 0 \<or> lz = 3 then 1 else 2)"

definition leaf_offsets :: "(int \<times> int \<times> int) list" where
  "leaf_offsets =
     concat (map (\<lambda>lz.
       concat (map (\<lambda>lx.
         concat (map (\<lambda>ly.
           if sqrt (of_int (lx * lx + ly * ly)) \<le> of_int (leaf_radius lz) + 0.5
           then [(lx, ly, lz)] else [])
         [- leaf_radius lz..leaf_radius lz]))
       [- leaf_radius lz..leaf_radius lz]))
     [0..3])"

definition leaf_step :: "world \<Rightarrow> int \<Rightarrow> int \<Rightarrow> int \<Rightarrow> int \<times> int \<times> int \<Rightarrow> grid \<Rightarrow> error + grid" where
  "leaf_step w x y leafStart = (\<lambda>(lx, ly, lz) bs.
     (let nx = x + lx; ny = y + ly; nz = leafStart + lz in
      if \<not> isInBounds w nx ny nz then Inr bs
      else case cell_id bs nx ny nz of
             Inl e \<Rightarrow> Inl e
           | Inr i \<Rightarrow> if i = bid AIR then set_validated bs nx ny nz LEAVES else Inr bs))"

definition addTree :: "world \<Rightarrow> (nat \<Rightarrow> real) \<Rightarrow> int \<Rightarrow> int \<Rightarrow> int \<Rightarrow> grid \<times> nat \<Rightarrow> error + grid \<times> nat" where
  "addTree w rnd x y z = (\<lambda>(bs, k).
     if \<not> isInBounds w (x + 2) (y + 2) (z + 6) then Inr (bs, k)
     else if \<not> isInBounds w (x - 2) (y - 2) z then Inr (bs, k)
     else
       (let height = 5 + \<lfloor>rnd k * 3\<rfloor> in
        case fold_err (\<lambda>i bs. set_validated bs x y (z + i) WOOD) [0..height - 1] bs of
          Inl e \<Rightarrow> Inl e
        | Inr bs1 \<Rightarrow>
            (case fold_err (leaf_step w x y (z + height - 3)) leaf_offsets bs1 of
               Inl e \<Rightarrow> Inl e
             | Inr bs2 \<Rightarrow> Inr (bs2, k + 1))))"

text \<open>
  One column of the terrain loop. \<open>Math.random()\<close> is called only when the column ends above the
  water level.
\<close>

definition terrain_column :: "world \<Rightarrow> noise \<Rightarrow> (nat \<Rightarrow> real) \<Rightarrow> int \<Rightarrow> int \<times> int \<Rightarrow> grid \<times> nat \<Rightarrow> error + grid \<times> nat" where
  "terrain_column w noise3D rnd sZ = (\<lambda>(x, y) (bs, k).
     (let finalH = finalHeight noise3D sZ x y;
          waterLevel = \<lfloor>of_int sZ * 0.5 :: real\<rfloor>
      in case fold_err (\<lambda>z bs. set_validated bs x y z (terrain_block z finalH waterLevel)) [0..sZ - 1] bs of
           Inl e \<Rightarrow> Inl e
         | Inr bs1 \<Rightarrow>
             if finalH > waterLevel
             then (if rnd k < 0.0045 then addTree w rnd x y finalH (bs1, k + 1) else Inr (bs1, k + 1))
             else Inr (bs1, k)))"

text \<open>\<open>createCavity\<close>: \<open>Math.random()\<close> is called only for an in-bounds cell that is neither AIR nor WATER.\<close>

definition cavity_step :: "world \<Rightarrow> (nat \<Rightarrow> real) \<Rightarrow> int \<Rightarrow> int \<Rightarrow> int \<Rightarrow> int \<times> int \<times> int \<Rightarrow> grid \<times> nat \<Rightarrow> error + grid \<times> nat" where
  "cavity_step w rnd x y z = (\<lambda>(dx, dy, dz) (bs, k).
     (let nx = x + dx; ny = y + dy; nz = z + dz in
      if \<not> isInBounds w nx ny nz then Inr (bs, k)
      else case cell_id bs nx ny nz of
             Inl e \<Rightarrow> Inl e
           | Inr i \<Rightarrow>
               if i \<noteq> bid AIR \<and> i \<noteq> bid WATER
               then (if rnd k < 0.3
                     then (case set_validated bs nx ny nz AIR of
                             Inl e \<Rightarrow> Inl e
                           | Inr bs' \<Rightarrow> Inr (bs', k + 1))
                     else Inr (bs, k + 1))
               else Inr (bs, k)))"

definition createCavity :: "world \<Rightarrow> (nat \<Rightarrow> real) \<Rightarrow> int \<Rightarrow> int \<Rightarrow> int \<Rightarrow> grid \<times> nat \<Rightarrow> error + grid \<times> nat" where
  "createCavity w rnd x y z =
     fold_err (cavity_step w rnd x y z) (List.product [- 1..1] (List.product [- 1..1] [- 1..1]))"

definition cave_step :: "world \<Rightarrow> noise \<Rightarrow> (nat \<Rightarrow> real) \<Rightarrow> int \<Rightarrow> int \<times> int \<times> int \<Rightarrow> grid \<times> nat \<Rightarrow> error + grid \<times> nat" where
  "cave_step w perlin rnd sZ = (\<lambda>(x, y, z) (bs, k).
     case cell_id bs x y z of
       Inl e \<Rightarrow> Inl e
     | Inr i \<Rightarrow>
         if i = bid AIR \<or> i = bid WATER then Inr (bs, k)
         else
           (let heightFactor = 1 / of_int (sZ - 10 - 5);
                heightInfluence = of_int (z - 5) * heightFactor;
                localThreshold = 0.3 + heightInfluence * 0.5;
                primaryNoise = perlin (of_int x * 0.05) (of_int y * 0.05) (of_int z * 0.05);
                detailNoise = perlin (of_int x * 0.1 + 100) (of_int y * 0.1 + 100) (of_int z * 0.1 + 100) * 0.5;
                combinedNoise = (primaryNoise + detailNoise) * 0.7
            in if combinedNoise > localThreshold
               then (case set_validated bs x y z AIR of
                       Inl e \<Rightarrow> Inl e
                     | Inr bs1 \<Rightarrow>
                         if combinedNoise > localThreshold + 0.1
                         then createCavity w rnd x y z (bs1, k)
                         else Inr (bs1, k))
               else Inr (bs, k)))"

definition generateCaves :: "world \<Rightarrow> noise \<Rightarrow> (nat \<Rightarrow> real) \<Rightarrow> int \<Rightarrow> int \<Rightarrow> int \<Rightarrow> grid \<times> nat \<Rightarrow> error + grid \<times> nat" where
  "generateCaves w perlin rnd sX sY sZ =
     fold_err (cave_step w perlin rnd sZ)
       (List.product [0..sX - 1] (List.product [0..sY - 1] [5..sZ - 10 - 1]))"

text \<open>The spawn platform, written by \<open>generateTerrain\<close> and again by \<open>findSpawnPoint\<close>.\<close>

definition platform_step :: "int \<Rightarrow> int \<times> int \<Rightarrow> grid \<Rightarrow> error + grid" where
  "platform_step spawnZ = (\<lambda>(x, y) bs.
     case set_validated bs x y (spawnZ - 1) DIRT of
       Inl e \<Rightarrow> Inl e
     | Inr bs1 \<Rightarrow>
         (case set_validated bs1 x y spawnZ AIR of
            Inl e \<Rightarrow> Inl e
          | Inr bs2 \<Rightarrow> set_validated bs2 x y (spawnZ + 1) AIR))"

definition spawn_platform :: "grid \<Rightarrow> int \<Rightarrow> int \<Rightarrow> int \<Rightarrow> error + grid" where
  "spawn_platform bs cx cy spawnZ =
     fold_err (platform_step spawnZ) (List.product [cx - 2..cx + 2] [cy - 2..cy + 2]) bs"

text \<open>\<open>blocks[x][y][z] = this.validateBlock(blocks[x][y][z])\<close>.\<close>

definition revalidate_step :: "int \<times> int \<times> int \<Rightarrow> grid \<Rightarrow> error + grid" where
  "revalidate_step = (\<lambda>(x, y, z) bs.
     case grid_get bs x y z of
       Inl e \<Rightarrow> Inl e
     | Inr c \<Rightarrow> grid_set bs x y z (Some (validateBlock c)))"

text \<open>
  \<open>column.findIndex(block => block.id === BLOCK.AIR.id)\<close>, evaluated for the log line: the
  callback throws on a hole.
\<close>

fun findIndex_air :: "block option list \<Rightarrow> error + unit" where
  "findIndex_air [] = Inr ()"
| "findIndex_air (None # column) = Inl TypeError"
| "findIndex_air (Some b # column) = (if bid b = bid AIR then Inr () else findIndex_air column)"

definition centerHeight :: "grid \<Rightarrow> int \<Rightarrow> int \<Rightarrow> error + unit" where
  "centerHeight bs cx cy =
     (case arr_get bs cx of
        None \<Rightarrow> Inl TypeError
      | Some plane \<Rightarrow>
          (case arr_get plane cy of
             None \<Rightarrow> Inl TypeError
           | Some column \<Rightarrow> findIndex_air column))"

text \<open>The body of the \<open>try\<close> block of \<open>generateTerrain\<close>.\<close>

definition generateTerrain_try :: "world \<Rightarrow> noise \<Rightarrow> noise \<Rightarrow> (nat \<Rightarrow> real) \<Rightarrow> int \<Rightarrow> int \<Rightarrow> int \<Rightarrow> error + grid" where
  "generateTerrain_try w noise3D perlin rnd sX sY sZ =
     (case fold_err (\<lambda>(x, y) bs. set_validated bs x y 0 BEDROCK) (List.product [0..sX - 1] [0..sY - 1])
             (replicate (nat sX) (replicate (nat sY) (replicate (nat sZ) (Some AIR)))) of
        Inl e \<Rightarrow> Inl e
      | Inr bs1 \<Rightarrow>
     (case fold_err (terrain_column w noise3D rnd sZ) (List.product [0..sX - 1] [0..sY - 1]) (bs1, 0) of
        Inl e \<Rightarrow> Inl e
      | Inr (bs2, k) \<Rightarrow>
     (case generateCaves w perlin rnd sX sY sZ (bs2, k) of
        Inl e \<Rightarrow> Inl e
      | Inr (bs3, k') \<Rightarrow>
     (case spawn_platform bs3 (sX div 2) (sY div 2) \<lfloor>of_int sZ * 0.6 :: real\<rfloor> of
        Inl e \<Rightarrow> Inl e
      | Inr bs4 \<Rightarrow>
     (case fold_err revalidate_step (cells sX sY sZ) bs4 of
        Inl e \<Rightarrow> Inl e
      | Inr bs5 \<Rightarrow>
     (case centerHeight bs5 (sX div 2) (sY div 2) of
        Inl e \<Rightarrow> Inl e
      | Inr u \<Rightarrow> Inr bs5))))))"

text \<open>
  \<open>createFlatWorld(height)\<close> sets the spawn point and returns a fresh array whose every cell
  the loops have written: DIRT below \<open>height\<close>, AIR from there on.
\<close>

definition createFlatWorld :: "world \<Rightarrow> int \<Rightarrow> error + world \<times> grid" where
  "createFlatWorld w height =
     (if height < 0 \<or> height > sz w then Inl (Error ''Invalid height for flat world.'')
      else Inr (w \<lparr> spawnPoint := (of_int (sx w) / 2 + 0.5, of_int (sy w) / 2 + 0.5, of_int height) \<rparr>,
                replicate (nat (sx w)) (replicate (nat (sy w))
                  (map (\<lambda>z. Some (if z < height then DIRT else AIR)) [0..sz w - 1]))))"

text \<open>\<open>generateTerrain\<close>: any exception of the body is caught and the flat world returned.\<close>

definition generateTerrain :: "world \<Rightarrow> noise \<Rightarrow> noise \<Rightarrow> (nat \<Rightarrow> real) \<Rightarrow> int \<Rightarrow> int \<Rightarrow> int \<Rightarrow> error + world \<times> grid" where
  "generateTerrain w noise3D perlin rnd sX sY sZ =
     (case generateTerrain_try w noise3D perlin rnd sX sY sZ of
        Inr bs \<Rightarrow> Inr (w, bs)
      | Inl e \<Rightarrow> createFlatWorld w (sZ div 2))"

definition findSpawnPoint :: "world \<Rightarrow> error + world \<times> int \<times> int \<times> int" where
  "findSpawnPoint w =
     (let x = sx w div 2; y = sy w div 2; spawnZ = \<lfloor>of_int (sz w) * 0.6 :: real\<rfloor>
      in case spawn_platform (blocks w) x y spawnZ of
           Inl e \<Rightarrow> Inl e
         | Inr bs \<Rightarrow> Inr (w \<lparr> blocks := bs \<rparr>, (x, y, spawnZ)))"

text \<open>
  The constructor \<open>new World(sx, sy, sz)\<close>, for integer sizes. The call of \<open>getBlock\<close> is the
  one of the log line.
\<close>

definition new_World :: "noise \<Rightarrow> noise \<Rightarrow> (nat \<Rightarrow> real) \<Rightarrow> int \<Rightarrow> int \<Rightarrow> int \<Rightarrow> error + world" where
  "new_World noise3D perlin rnd sX sY sZ =
     (if sX \<le> 0 \<or> sY \<le> 0 \<or> sZ \<le> 0
      then Inl (Error ''World dimensions must be positive non-zero values.'')
      else
        (let this = \<lparr> sx = sX, sy = sY, sz = sZ, blocks = [], lightmap = [],
                      spawnPoint = (0, 0, 0), renderer = None \<rparr>
         in case generateTerrain this noise3D perlin rnd sX sY sZ of
              Inl e \<Rightarrow> Inl e
            | Inr (w1, bs) \<Rightarrow>
                (case findSpawnPoint (w1 \<lparr> blocks := bs \<rparr>) of
                   Inl e \<Rightarrow> Inl e
                 | Inr (w2, (x, y, z)) \<Rightarrow>
                     (case getBlock w2 x y z of
                        Inl e \<Rightarrow> Inl e
                      | Inr b \<Rightarrow>
                          updateLighting
                            (w2 \<lparr> spawnPoint := (of_int x, of_int y, of_int z),
                                  lightmap := replicate (nat sX) (replicate (nat sY) 0) \<rparr>)))))"

text \<open>
  \<open>World.generateWorld(sx, sy, sz)\<close> on numbers: the promise resolves with the world or is
  rejected with an error that wraps the one thrown.
\<close>

datatype rejection = Rejected error

definition generateWorld :: "noise \<Rightarrow> noise \<Rightarrow> (nat \<Rightarrow> real) \<Rightarrow> real \<Rightarrow> real \<Rightarrow> real \<Rightarrow> rejection + world" where
  "generateWorld noise3D perlin rnd sX sY sZ =
     (if of_int \<lfloor>sX\<rfloor> \<noteq> sX \<or> of_int \<lfloor>sY\<rfloor> \<noteq> sY \<or> of_int \<lfloor>sZ\<rfloor> \<noteq> sZ
      then Inl (Rejected (Error ''World dimensions must be integers''))
      else if sX \<le> 0 \<or> sY \<le> 0 \<or> sZ \<le> 0
      then Inl (Rejected (Error ''World dimensions must be positive''))
      else if sX > 254 \<or> sY > 254 \<or> sZ > 254
      then Inl (Rejected (Error ''World dimensions cannot exceed 254''))
      else case new_World noise3D perlin rnd \<lfloor>sX\<rfloor> \<lfloor>sY\<rfloor> \<lfloor>sZ\<rfloor> of
             Inl e \<Rightarrow> Inl (Rejected e)
           | Inr w \<Rightarrow> Inr w)"

text \<open>The stand-ins used where a concrete run is evaluated: noise that is 0 everywhere.\<close>

definition flat_noise :: noise where
  "flat_noise x y z = 0"

text \<open>
  A block array of exactly \<open>a\<close> planes of \<open>b\<close> columns of \<open>c\<close> cells, every cell a block
  object.
\<close>

definition grid_full :: "grid \<Rightarrow> int \<Rightarrow> int \<Rightarrow> int \<Rightarrow> bool" where
  "grid_full bs a b c \<longleftrightarrow> length bs = nat a \<and>
     list_all (\<lambda>plane. length plane = nat b \<and>
       list_all (\<lambda>column. length column = nat c \<and> list_all (\<lambda>cell. cell \<noteq> None) column) plane) bs"

section \<open>Properties\<close>

subsection \<open>Arrays and the grid\<close>

lemma cell_get_arr_set_other: "j \<noteq> i \<Longrightarrow> cell_get (arr_set c i v) j = cell_get c j"
  by (auto simp: cell_get_def arr_get_def arr_set_def nth_append nat_eq_iff nth_Cons' split: option.splits)

lemma cell_get_arr_set_same: "0 \<le> i \<Longrightarrow> cell_get (arr_set c i v) i = v"
  by (auto simp: cell_get_def arr_get_def arr_set_def nth_append split: option.splits)

lemma grid_get_unfold:
  "grid_get bs x y z =
     (if 0 \<le> x \<and> x < int (length bs) \<and> 0 \<le> y \<and> y < int (length (bs ! nat x))
      then Inr (cell_get (bs ! nat x ! nat y) z) else Inl TypeError)"
  by (simp add: grid_get_def arr_get_def)

lemma grid_set_unfold:
  "grid_set bs x y z v =
     (if 0 \<le> x \<and> x < int (length bs) \<and> 0 \<le> y \<and> y < int (length (bs ! nat x))
      then Inr (bs[nat x := (bs ! nat x)[nat y := arr_set (bs ! nat x ! nat y) z v]])
      else Inl TypeError)"
  by (simp add: grid_set_def arr_get_def)

lemma grid_set_other:
  assumes "grid_set bs x y z v = Inr bs'" "(x', y', z') \<noteq> (x, y, z)"
  shows "grid_get bs' x' y' z' = grid_get bs x' y' z'"
proof -
  from assms(1) have b: "0 \<le> x" "x < int (length bs)" "0 \<le> y" "y < int (length (bs ! nat x))"
    and bs': "bs' = bs[nat x := (bs ! nat x)[nat y := arr_set (bs ! nat x ! nat y) z v]]"
    by (auto simp: grid_set_unfold split: if_splits)
  show ?thesis
  proof (cases "x' = x")
    case False
    with b show ?thesis by (auto simp: grid_get_unfold bs' nat_eq_iff)
  next
    case x: True
    show ?thesis
    proof (cases "y' = y")
      case False
      with b x show ?thesis by (auto simp: grid_get_unfold bs' nat_eq_iff)
    next
      case True
      with x assms(2) have "z' \<noteq> z" by simp
      with b x True show ?thesis
        by (auto simp: grid_get_unfold bs' cell_get_arr_set_other)
    qed
  qed
qed

lemma grid_set_same:
  assumes "grid_set bs x y z v = Inr bs'" "0 \<le> z"
  shows "grid_get bs' x y z = Inr v"
  using assms
  by (auto simp: grid_set_unfold grid_get_unfold cell_get_arr_set_same split: if_splits)

lemma grid_ok_has:
  assumes "grid_ok w" "0 \<le> x" "x < sx w" "0 \<le> y" "y < sy w"
  shows "x < int (length (blocks w)) \<and> y < int (length (blocks w ! nat x))"
proof -
  from assms have 1: "x < int (length (blocks w))" by (auto simp: grid_ok_def)
  from assms have "nat x < length (take (nat (sx w)) (blocks w))" by (auto simp: grid_ok_def)
  with assms(1) have "nat (sy w) \<le> length (take (nat (sx w)) (blocks w) ! nat x)"
    unfolding grid_ok_def list_all_length by blast
  with assms have 2: "y < int (length (blocks w ! nat x))" by auto
  from 1 2 show ?thesis by simp
qed

lemma grid_ok_set:
  assumes "grid_ok w" "0 \<le> x" "x < sx w" "0 \<le> y" "y < sy w"
  shows "\<exists>bs'. grid_set (blocks w) x y z v = Inr bs'"
  using grid_ok_has[OF assms] assms by (simp add: grid_set_unfold)

subsection \<open>The frame of \<open>setBlock\<close>\<close>

text \<open>
  C10. On a well-formed world, for in-bounds \<open>(x, y, z)\<close> and a block object \<open>b\<close>,
  \<open>setBlock\<close> succeeds and changes only the cell \<open>blocks[x][y][z]\<close>: every other cell
  reads as before, and the sizes, the spawn point and the lightmap are unchanged. For
  out-of-bounds \<open>(x, y, z)\<close> the call returns \<open>false\<close> and the whole world is unchanged,
  whatever the input (\<open>null\<close> included).
\<close>

theorem setBlock_frame:
  "(grid_ok w \<and> isInBounds w x y z \<longrightarrow>
      (\<exists>w'. setBlock w x y z (Some b) md = Inr (True, w') \<and>
            sx w' = sx w \<and> sy w' = sy w \<and> sz w' = sz w \<and> spawnPoint w' = spawnPoint w \<and>
            lightmap w' = lightmap w \<and>
            (\<forall>x' y' z'. (x', y', z') \<noteq> (x, y, z) \<longrightarrow>
               grid_get (blocks w') x' y' z' = grid_get (blocks w) x' y' z')))
   \<and> (\<not> isInBounds w x y z \<longrightarrow> setBlock w x y z t md = Inr (False, w))"
proof (intro conjI impI)
  assume a: "grid_ok w \<and> isInBounds w x y z"
  then have b: "0 \<le> x" "x < sx w" "0 \<le> y" "y < sy w" by (auto simp: isInBounds_def)
  define v where "v = Some ((if xray b then b \<lparr> transparent := True, opacity := Some 0.3 \<rparr>
                        else validateBlock (Some b)) \<lparr> metadata := Some md \<rparr>)"
  from grid_ok_set[OF _ b, of z v] a obtain bs' where bs': "grid_set (blocks w) x y z v = Inr bs'"
    by blast
  have other: "\<forall>x' y' z'. (x', y', z') \<noteq> (x, y, z) \<longrightarrow>
               grid_get bs' x' y' z' = grid_get (blocks w) x' y' z'"
    using grid_set_other[OF bs'] by blast
  from a bs' other show "\<exists>w'. setBlock w x y z (Some b) md = Inr (True, w') \<and>
            sx w' = sx w \<and> sy w' = sy w \<and> sz w' = sz w \<and> spawnPoint w' = spawnPoint w \<and>
            lightmap w' = lightmap w \<and>
            (\<forall>x' y' z'. (x', y', z') \<noteq> (x, y, z) \<longrightarrow>
               grid_get (blocks w') x' y' z' = grid_get (blocks w) x' y' z')"
    by (simp add: setBlock_def Let_def v_def)
next
  assume "\<not> isInBounds w x y z"
  then show "setBlock w x y z t md = Inr (False, w)" by (simp add: setBlock_def)
qed

theorem setBlock_frame_witness:
  "grid_ok demo_world \<and> isInBounds demo_world 0 0 1 \<and>
   (\<exists>w'. setBlock demo_world 0 0 1 (Some DIRT) [] = Inr (True, w') \<and>
         sx w' = 1 \<and> sy w' = 1 \<and> sz w' = 2 \<and> spawnPoint w' = (0, 0, 1) \<and> lightmap w' = [[1]] \<and>
         grid_get (blocks w') 0 0 0 = Inr (Some AIR)) \<and>
   \<not> isInBounds demo_world 0 0 2 \<and> setBlock demo_world 0 0 2 None [] = Inr (False, demo_world)"
proof -
  have g: "grid_ok demo_world" by (simp add: grid_ok_def demo_world_def)
  have i: "isInBounds demo_world 0 0 1" by (simp add: isInBounds_def demo_world_def)
  have o: "\<not> isInBounds demo_world 0 0 2" by (simp add: isInBounds_def demo_world_def)
  from setBlock_frame[of demo_world 0 0 1 DIRT "[]"] g i
  obtain w' where w': "setBlock demo_world 0 0 1 (Some DIRT) [] = Inr (True, w')"
      "sx w' = sx demo_world" "sy w' = sy demo_world" "sz w' = sz demo_world"
      "spawnPoint w' = spawnPoint demo_world" "lightmap w' = lightmap demo_world"
      "\<forall>x' y' z'. (x', y', z') \<noteq> (0, 0, 1) \<longrightarrow>
         grid_get (blocks w') x' y' z' = grid_get (blocks demo_world) x' y' z'"
    by blast
  from w'(7) have "grid_get (blocks w') 0 0 0 = grid_get (blocks demo_world) 0 0 0" by simp
  then have c: "grid_get (blocks w') 0 0 0 = Inr (Some AIR)"
    by (simp add: demo_world_def grid_get_unfold cell_get_def arr_get_def)
  from setBlock_frame[of demo_world 0 0 2 _ "[]" None] o
  have n: "setBlock demo_world 0 0 2 None [] = Inr (False, demo_world)" by blast
  from w' c show ?thesis using g i o n by (auto simp: demo_world_def)
qed

subsection \<open>Block validation\<close>

lemma validateTextureCoords_idem:
  "validateTextureCoords (validateTextureCoords c) = validateTextureCoords c"
  by (auto simp: validateTextureCoords_def)

lemma bid_block_type: "bid (block_type i sp tr sl gr fl tex) = Some i"
  by (simp add: block_type_def validateBlockType_def)

lemma validateBlockType_block_type:
  "validateBlockType (Some (block_type i sp tr sl gr fl tex \<lparr> metadata := m \<rparr>))
     = block_type i sp tr sl gr fl tex \<lparr> metadata := m \<rparr>"
  by (simp add: block_type_def validateBlockType_def validateTextureCoords_idem)

lemma bid_AIR: "bid AIR = Some 0"
  by (simp add: AIR_def bid_block_type)

lemma validateBlock_block_type:
  "validateBlock (Some (block_type i sp tr sl gr fl tex \<lparr> metadata := m \<rparr>))
     = (if i = 0 then AIR else block_type i sp tr sl gr fl tex \<lparr> metadata := m \<rparr>)"
  using validateBlockType_block_type
  by (simp add: validateBlock_def bid_AIR bid_block_type)
     (simp add: block_type_def validateBlockType_def)

lemma block_type_metadata:
  "block_type i sp tr sl gr fl tex \<lparr> metadata := None \<rparr> = block_type i sp tr sl gr fl tex"
  by (simp add: block_type_def validateBlockType_def)

lemma xray_block_type: "\<not> xray (block_type i sp tr sl gr fl tex)"
  by (simp add: block_type_def validateBlockType_def)

lemmas block_type_defs = BEDROCK_def DIRT_def WOOD_def TNT_def BOOKCASE_def LAVA_def PLANK_def
  COBBLESTONE_def CONCRETE_def BRICK_def SAND_def GRAVEL_def IRON_def GOLD_def DIAMOND_def
  OBSIDIAN_def GLASS_def SPONGE_def WATER_def LEAVES_def ROCK_def AIR_def

lemma block_types_shape:
  assumes "b \<in> set block_types"
  shows "\<exists>i sp tr sl gr fl tex. b = block_type i sp tr sl gr fl tex"
  using assms unfolding block_types_def block_type_defs
  by (simp only: set_simps insert_iff empty_iff) blast

lemma block_types_air:
  assumes "b \<in> set block_types" "bid b = Some 0"
  shows "b = AIR"
  using assms unfolding block_types_def
  by (auto simp: block_type_defs bid_block_type)


lemma arr_set_idem: "0 \<le> z \<Longrightarrow> arr_set (arr_set c z v) z v = arr_set c z v"
  by (auto simp: arr_set_def list_update_append)

lemma grid_set_idem:
  assumes "grid_set bs x y z v = Inr bs'" "0 \<le> z"
  shows "grid_set bs' x y z v = Inr bs'"
  using assms
  by (auto simp: grid_set_unfold arr_set_idem split: if_splits)

lemma validateBlock_stored:
  assumes "b \<in> set block_types"
  shows "block_equiv (validateBlock (Some (validateBlock (Some b) \<lparr> metadata := Some md \<rparr>))) b"
proof -
  from block_types_shape[OF assms] obtain i sp tr sl gr fl tex
    where b: "b = block_type i sp tr sl gr fl tex" by blast
  show ?thesis
  proof (cases "i = 0")
    case True
    with b have "bid b = Some 0" by (simp add: bid_block_type)
    with assms have air: "b = AIR" by (rule block_types_air)
    have 1: "validateBlock (Some AIR) = AIR"
      by (simp add: validateBlock_def bid_AIR)
    have 2: "validateBlock (Some (AIR \<lparr> metadata := Some md \<rparr>)) = AIR"
      by (simp add: validateBlock_def bid_AIR)
    show ?thesis by (simp add: air 1 2 block_equiv_def)
  next
    case False
    have 1: "validateBlock (Some b) = b"
      using validateBlock_block_type[where m = None and i = i and sp = sp and tr = tr and sl = sl and gr = gr and fl = fl and tex = tex] False
      by (simp add: b block_type_metadata)
    show ?thesis using False
      by (simp add: 1) (simp add: b validateBlock_block_type block_equiv_def)
  qed
qed

subsection \<open>\<open>setBlock\<close> followed by \<open>getBlock\<close>, and \<open>setBlock\<close> twice\<close>

text \<open>
  C3. The claim says that \<open>getBlock\<close> right after \<open>setBlock\<close> returns an equivalent block, and
  that two identical \<open>setBlock\<close> calls leave the same world state as one call and mark the
  owning chunk dirty only once. In the source, on a well-formed world, for in-bounds
  \<open>(x, y, z)\<close> and every block type \<open>b\<close> of the registry, the round trip holds, and the second
  call leaves the blocks, the sizes, the lightmap and the spawn point as the first call left
  them. But the owning chunk is marked dirty by neither call: \<open>setBlock\<close> only has the renderer
  queue a \<open>blockChanged\<close> event, one per call, and the chunk map after the two calls is the
  chunk map before them.
\<close>

theorem setBlock_getBlock:
  assumes "grid_ok w" "isInBounds w x y z" "b \<in> set block_types"
  shows "\<exists>w1 w2 g. setBlock w x y z (Some b) md = Inr (True, w1) \<and>
           getBlock w1 x y z = Inr (Some g) \<and> block_equiv g b \<and>
           setBlock w1 x y z (Some b) md = Inr (True, w2) \<and>
           blocks w2 = blocks w1 \<and> sx w2 = sx w1 \<and> sy w2 = sy w1 \<and> sz w2 = sz w1 \<and>
           lightmap w2 = lightmap w1 \<and> spawnPoint w2 = spawnPoint w1 \<and>
           renderer w1 = map_option (\<lambda>r. onBlockChanged r x y z) (renderer w) \<and>
           renderer w2 = map_option (\<lambda>r. onBlockChanged r x y z) (renderer w1) \<and>
           map_option chunkMap (renderer w2) = map_option chunkMap (renderer w) \<and>
           map_option eventQueue (renderer w2) =
             map_option (\<lambda>r. eventQueue r @ [BlockChanged x y z, BlockChanged x y z]) (renderer w)"
proof -
  from assms(2) have bnd: "0 \<le> x" "x < sx w" "0 \<le> y" "y < sy w" "0 \<le> z" "z < sz w"
    by (auto simp: isInBounds_def)
  from block_types_shape[OF assms(3)] have nx: "\<not> xray b" by (auto simp: xray_block_type)
  define v where "v = Some (validateBlock (Some b) \<lparr> metadata := Some md \<rparr>)"
  from grid_ok_set[OF assms(1) bnd(1-4), of z v]
  obtain bs' where bs': "grid_set (blocks w) x y z v = Inr bs'" by blast
  define w1 where "w1 = w \<lparr> blocks := bs', renderer := map_option (\<lambda>r. onBlockChanged r x y z) (renderer w) \<rparr>"
  define w2 where "w2 = w1 \<lparr> renderer := map_option (\<lambda>r. onBlockChanged r x y z) (renderer w1) \<rparr>"
  have s1: "setBlock w x y z (Some b) md = Inr (True, w1)"
    using assms(2) nx bs'
    by (auto simp: setBlock_def v_def w1_def split: option.splits)
  have ib1: "isInBounds w1 x y z" using assms(2) by (simp add: isInBounds_def w1_def)
  have g: "getBlock w1 x y z = Inr (Some (validateBlock v))"
    using bnd grid_set_same[OF bs' bnd(5)] by (simp add: getBlock_def w1_def)
  have e: "block_equiv (validateBlock v) b"
    unfolding v_def by (rule validateBlock_stored[OF assms(3)])
  have s2: "setBlock w1 x y z (Some b) md = Inr (True, w2)"
    using ib1 nx grid_set_idem[OF bs' bnd(5)]
    by (auto simp: setBlock_def v_def w1_def w2_def split: option.splits)
  show ?thesis
    using s1 g e s2
    by (intro exI[of _ w1] exI[of _ w2] exI[of _ "validateBlock v"])
       (cases "renderer w"; simp add: w2_def w1_def onBlockChanged_def)
qed

theorem setBlock_getBlock_witness:
  "grid_ok demo_world \<and> isInBounds demo_world 0 0 1 \<and> DIRT \<in> set block_types \<and>
   (\<exists>w1 w2 g. setBlock demo_world 0 0 1 (Some DIRT) [] = Inr (True, w1) \<and>
           getBlock w1 0 0 1 = Inr (Some g) \<and> block_equiv g DIRT \<and>
           setBlock w1 0 0 1 (Some DIRT) [] = Inr (True, w2) \<and>
           blocks w2 = blocks w1 \<and> sx w2 = sx w1 \<and> sy w2 = sy w1 \<and> sz w2 = sz w1 \<and>
           lightmap w2 = lightmap w1 \<and> spawnPoint w2 = spawnPoint w1 \<and>
           renderer w1 = map_option (\<lambda>r. onBlockChanged r 0 0 1) (renderer demo_world) \<and>
           renderer w2 = map_option (\<lambda>r. onBlockChanged r 0 0 1) (renderer w1) \<and>
           map_option chunkMap (renderer w2) = map_option chunkMap (renderer demo_world) \<and>
           map_option eventQueue (renderer w2) =
             map_option (\<lambda>r. eventQueue r @ [BlockChanged 0 0 1, BlockChanged 0 0 1]) (renderer demo_world))"
proof -
  have g: "grid_ok demo_world" by (simp add: grid_ok_def demo_world_def)
  have i: "isInBounds demo_world 0 0 1" by (simp add: isInBounds_def demo_world_def)
  have d: "DIRT \<in> set block_types" by (simp add: block_types_def)
  from setBlock_getBlock[OF g i d, of "[]"] g i d show ?thesis by blast
qed

text \<open>
  On the example world: both calls return \<open>true\<close>, one event is queued after the first call and
  two after the second, and the dirty flag of the owning chunk is unset after both.
\<close>

lemma setBlock_twice_events:
  "(case setBlock demo_world 0 0 1 (Some DIRT) [] of
      Inl e \<Rightarrow> None
    | Inr (ok1, w1) \<Rightarrow>
        (case setBlock w1 0 0 1 (Some DIRT) [] of
           Inl e \<Rightarrow> None
         | Inr (ok2, w2) \<Rightarrow>
             Some (ok1, ok2, blocks w2 = blocks w1,
                   map_option eventQueue (renderer w1), map_option eventQueue (renderer w2),
                   map_option (map (dirty \<circ> snd) \<circ> chunkMap) (renderer w1),
                   map_option (map (dirty \<circ> snd) \<circ> chunkMap) (renderer w2))))
   = Some (True, True, True, Some [BlockChanged 0 0 1],
           Some [BlockChanged 0 0 1, BlockChanged 0 0 1], Some [False], Some [False])"
  by (simp add: setBlock_def isInBounds_def demo_world_def demo_renderer_def grid_set_unfold
        onBlockChanged_def arr_set_def xray_block_type DIRT_def Let_def)


subsection \<open>What \<open>setBlock\<close> does\<close>

text \<open>
  C2. The claim says that \<open>setBlock\<close> validates the block, writes the cell, updates the column
  lightmap and marks the owning chunk dirty, is a no-op out of bounds, and never raises. In the
  source, on a well-formed world and for in-bounds \<open>(x, y, z)\<close>, a block object \<open>b\<close> is validated
  (the AIR template when it has no id; an xray object as given, made transparent with opacity
  0.3), stored with the metadata attached, and \<open>true\<close> is returned; out of bounds the call is a
  no-op that returns \<open>false\<close>, for every input. But the lightmap is left as it was, no chunk is
  marked dirty (the renderer only gets a \<open>blockChanged\<close> event queued, and nothing for an xray
  object), and for \<open>null\<close> in bounds the call throws, since \<open>type.xray\<close> is read before the block
  is validated.
\<close>

theorem setBlock_effect:
  "(grid_ok w \<and> isInBounds w x y z \<longrightarrow>
      (\<exists>w'. setBlock w x y z (Some b) md = Inr (True, w') \<and>
            grid_get (blocks w') x y z =
              Inr (Some ((if xray b then b \<lparr> transparent := True, opacity := Some 0.3 \<rparr>
                          else validateBlock (Some b)) \<lparr> metadata := Some md \<rparr>)) \<and>
            (bid b = None \<longrightarrow> validateBlock (Some b) = AIR) \<and>
            lightmap w' = lightmap w \<and>
            renderer w' = map_option (\<lambda>r. if xray b then r
                             else r \<lparr> eventQueue := eventQueue r @ [BlockChanged x y z] \<rparr>) (renderer w) \<and>
            map_option chunkMap (renderer w') = map_option chunkMap (renderer w)))
   \<and> (isInBounds w x y z \<longrightarrow> setBlock w x y z None md = Inl TypeError)
   \<and> (\<not> isInBounds w x y z \<longrightarrow> setBlock w x y z t md = Inr (False, w))"
proof (intro conjI impI)
  assume a: "grid_ok w \<and> isInBounds w x y z"
  then have b: "0 \<le> x" "x < sx w" "0 \<le> y" "y < sy w" "0 \<le> z" by (auto simp: isInBounds_def)
  define v where "v = Some ((if xray b then b \<lparr> transparent := True, opacity := Some 0.3 \<rparr>
                        else validateBlock (Some b)) \<lparr> metadata := Some md \<rparr>)"
  from grid_ok_set[OF _ b(1-4), of z v] a obtain bs' where bs': "grid_set (blocks w) x y z v = Inr bs'"
    by blast
  have m: "bid b = None \<longrightarrow> validateBlock (Some b) = AIR" by (simp add: validateBlock_def)
  from a bs' grid_set_same[OF bs' b(5)] m
  show "\<exists>w'. setBlock w x y z (Some b) md = Inr (True, w') \<and>
            grid_get (blocks w') x y z =
              Inr (Some ((if xray b then b \<lparr> transparent := True, opacity := Some 0.3 \<rparr>
                          else validateBlock (Some b)) \<lparr> metadata := Some md \<rparr>)) \<and>
            (bid b = None \<longrightarrow> validateBlock (Some b) = AIR) \<and>
            lightmap w' = lightmap w \<and>
            renderer w' = map_option (\<lambda>r. if xray b then r
                             else r \<lparr> eventQueue := eventQueue r @ [BlockChanged x y z] \<rparr>) (renderer w) \<and>
            map_option chunkMap (renderer w') = map_option chunkMap (renderer w)"
    by (cases "renderer w") (simp_all add: setBlock_def Let_def v_def onBlockChanged_def)
next
  assume "isInBounds w x y z"
  then show "setBlock w x y z None md = Inl TypeError" by (simp add: setBlock_def)
next
  assume "\<not> isInBounds w x y z"
  then show "setBlock w x y z t md = Inr (False, w)" by (simp add: setBlock_def)
qed

theorem setBlock_effect_witness:
  "grid_ok demo_world \<and> isInBounds demo_world 0 0 0 \<and>
   (\<exists>w'. setBlock demo_world 0 0 0 (Some (DIRT \<lparr> bid := None \<rparr>)) [] = Inr (True, w') \<and>
         grid_get (blocks w') 0 0 0 = Inr (Some (AIR \<lparr> metadata := Some [] \<rparr>)) \<and>
         lightmap w' = [[1]] \<and>
         map_option eventQueue (renderer w') = Some [BlockChanged 0 0 0] \<and>
         map_option (map (dirty \<circ> snd) \<circ> chunkMap) (renderer w') = Some [False]) \<and>
   setBlock demo_world 0 0 0 None [] = Inl TypeError \<and>
   \<not> isInBounds demo_world 0 (- 1) 0 \<and>
   setBlock demo_world 0 (- 1) 0 None [] = Inr (False, demo_world)"
proof -
  have g: "grid_ok demo_world" by (simp add: grid_ok_def demo_world_def)
  have i: "isInBounds demo_world 0 0 0" by (simp add: isInBounds_def demo_world_def)
  have o: "\<not> isInBounds demo_world 0 (- 1) 0" by (simp add: isInBounds_def demo_world_def)
  have x: "\<not> xray (DIRT \<lparr> bid := None \<rparr>)" by (simp add: DIRT_def xray_block_type)
  from setBlock_effect[of demo_world 0 0 0 "DIRT \<lparr> bid := None \<rparr>" "[]"] g i x
  obtain w' where w': "setBlock demo_world 0 0 0 (Some (DIRT \<lparr> bid := None \<rparr>)) [] = Inr (True, w')"
      "grid_get (blocks w') 0 0 0 = Inr (Some (AIR \<lparr> metadata := Some [] \<rparr>))"
      "lightmap w' = lightmap demo_world"
      "renderer w' = map_option (\<lambda>r. r \<lparr> eventQueue := eventQueue r @ [BlockChanged 0 0 0] \<rparr>) (renderer demo_world)"
    by auto
  from setBlock_effect[of demo_world 0 "- 1" 0 _ "[]" None] o
  have n: "setBlock demo_world 0 (- 1) 0 None [] = Inr (False, demo_world)" by blast
  from setBlock_effect[of demo_world 0 0 0 _ "[]"] i
  have t: "setBlock demo_world 0 0 0 None [] = Inl TypeError" by blast
  from w' n t g i o show ?thesis by (auto simp: demo_world_def demo_renderer_def)
qed

text \<open>
  On the example world: placing DIRT at the bottom of an all-AIR column leaves the column's
  lightmap entry at 1 where \<open>updateLighting\<close> computes 0 for the new column, and the dirty flag
  of the owning chunk stays unset.
\<close>

lemma setBlock_lightmap_stale:
  "map_sum id lightmap (updateLighting demo_world) = Inr [[1]] \<and>
   (case setBlock demo_world 0 0 0 (Some DIRT) [] of
      Inl e \<Rightarrow> None
    | Inr (ok, w1) \<Rightarrow>
        Some (ok, lightmap w1, map_sum id lightmap (updateLighting w1),
              map_option (map (dirty \<circ> snd) \<circ> chunkMap) (renderer w1)))
   = Some (True, [[1]], Inr [[0]], Some [False])"
  by (simp add: setBlock_def isInBounds_def demo_world_def demo_renderer_def grid_set_unfold
        onBlockChanged_def arr_set_def xray_block_type DIRT_def AIR_def Let_def updateLighting_def
        grid_get_unfold cell_get_def arr_get_def lightmap_set_def validateBlock_def bid_block_type
        numeral_2_eq_2)
     (simp add: block_type_def validateBlockType_def)

subsection \<open>Serialisation\<close>

lemma grid_has_set:
  assumes "grid_set bs x y z v = Inr bs'"
  shows "grid_has bs' x' y' = grid_has bs x' y'"
  using assms
  by (auto simp: grid_set_unfold grid_has_def nth_list_update split: if_splits)

lemma grid_set_has: "grid_has bs x y \<Longrightarrow> \<exists>bs'. grid_set bs x y z v = Inr bs'"
  by (simp add: grid_set_unfold grid_has_def)

lemma grid_get_has: "grid_has bs x y \<Longrightarrow> grid_get bs x y z = Inr (cell_get (bs ! nat x ! nat y) z)"
  by (simp add: grid_get_unfold grid_has_def)

text \<open>The write loop over distinct cells.\<close>

lemma write_loop:
  assumes "distinct cs" "\<forall>(x, y, z) \<in> set cs. grid_has bs x y \<and> 0 \<le> z"
  shows "\<exists>bs'. fold_err (createFromString_cell str) cs (i0, bs) = Inr (i0 + length cs, bs') \<and>
           (\<forall>x y. grid_has bs' x y = grid_has bs x y) \<and>
           (\<forall>x y z. (x, y, z) \<notin> set cs \<longrightarrow> grid_get bs' x y z = grid_get bs x y z) \<and>
           (\<forall>j < length cs. case cs ! j of (x, y, z) \<Rightarrow> grid_get bs' x y z = Inr (Some (block_of_code (charCodeAt str (i0 + j)))))"
  using assms
proof (induction cs arbitrary: i0 bs)
  case Nil
  then show ?case by simp
next
  case (Cons c cs)
  obtain x y z where c: "c = (x, y, z)" by (cases c) auto
  from Cons.prems c have h: "grid_has bs x y" "0 \<le> z" by auto
  from grid_set_has[OF h(1)] obtain b1 where b1: "grid_set bs x y z (Some (block_of_code (charCodeAt str i0))) = Inr b1" by blast
  have has1: "\<And>x' y'. grid_has b1 x' y' = grid_has bs x' y'" by (rule grid_has_set[OF b1])
  from Cons.prems have d: "distinct cs" and p: "\<forall>(x, y, z) \<in> set cs. grid_has b1 x y \<and> 0 \<le> z"
    and nin: "(x, y, z) \<notin> set cs"
    by (auto simp: has1 c)
  from Cons.IH[OF d p, of "i0 + 1"] obtain bs' where
    r: "fold_err (createFromString_cell str) cs (i0 + 1, b1) = Inr (i0 + 1 + length cs, bs')"
    and has: "\<forall>x y. grid_has bs' x y = grid_has b1 x y"
    and oth: "\<forall>x y z. (x, y, z) \<notin> set cs \<longrightarrow> grid_get bs' x y z = grid_get b1 x y z"
    and rd: "\<forall>j < length cs. case cs ! j of (x, y, z) \<Rightarrow> grid_get bs' x y z = Inr (Some (block_of_code (charCodeAt str (i0 + 1 + j))))"
    by blast
  have first: "grid_get bs' x y z = Inr (Some (block_of_code (charCodeAt str i0)))"
    using oth nin grid_set_same[OF b1 h(2)] by simp
  have 1: "fold_err (createFromString_cell str) (c # cs) (i0, bs) = Inr (i0 + length (c # cs), bs')"
    using r b1 by (simp add: c createFromString_cell_def)
  have 2: "\<forall>x y. grid_has bs' x y = grid_has bs x y" using has has1 by simp
  have 3: "\<forall>x' y' z'. (x', y', z') \<notin> set (c # cs) \<longrightarrow> grid_get bs' x' y' z' = grid_get bs x' y' z'"
    using oth grid_set_other[OF b1] by (auto simp: c)
  have 4: "\<forall>j < length (c # cs). case (c # cs) ! j of (x, y, z) \<Rightarrow> grid_get bs' x y z = Inr (Some (block_of_code (charCodeAt str (i0 + j))))"
  proof (intro allI impI)
    fix j assume "j < length (c # cs)"
    then show "case (c # cs) ! j of (x, y, z) \<Rightarrow> grid_get bs' x y z = Inr (Some (block_of_code (charCodeAt str (i0 + j))))"
      using first rd by (cases j) (auto simp: c)
  qed
  from 1 2 3 4 show ?case by blast
qed

text \<open>The read loop.\<close>

lemma read_loop:
  assumes "\<forall>j < length cs. case cs ! j of (x, y, z) \<Rightarrow> grid_get bs x y z = Inr (g j)"
  shows "fold_err (toNetworkString_cell bs) cs acc = Inr (acc @ map (\<lambda>j. block_code (validateBlock (g j))) [0..<length cs])"
  using assms
proof (induction cs arbitrary: acc g)
  case Nil
  then show ?case by simp
next
  case (Cons c cs)
  obtain x y z where c: "c = (x, y, z)" by (cases c) auto
  from Cons.prems have 0: "grid_get bs x y z = Inr (g 0)" by (auto simp: c)
  from Cons.prems have "\<forall>j < length cs. case cs ! j of (x, y, z) \<Rightarrow> grid_get bs x y z = Inr (g (Suc j))"
    by auto
  from Cons.IH[OF this, of "acc @ [block_code (validateBlock (g 0))]"]
  show ?case using 0
    by (simp add: c toNetworkString_cell_def map_upt_Suc del: upt_Suc)
qed


subsection \<open>The iteration order\<close>

lemma distinct_cells: "distinct (cells a b c)"
  by (simp add: cells_def distinct_product)

lemma set_cells: "(x, y, z) \<in> set (cells a b c) \<longleftrightarrow> 0 \<le> x \<and> x < a \<and> 0 \<le> y \<and> y < b \<and> 0 \<le> z \<and> z < c"
  by (auto simp: cells_def)

lemma length_cells: "0 \<le> a \<Longrightarrow> 0 \<le> b \<Longrightarrow> 0 \<le> c \<Longrightarrow> int (length (cells a b c)) = a * b * c"
  by (simp add: cells_def nat_mult_distrib)

lemma cells_nth:
  assumes "j < length (cells a b c)"
  shows "cells a b c ! j = (int (j div (nat b * nat c)), int ((j mod (nat b * nat c)) div nat c), int (j mod nat c))"
proof -
  from assms have j: "j < nat a * (nat b * nat c)" by (simp add: cells_def)
  have pos: "0 < nat a" "0 < nat b" "0 < nat c"
  proof -
    show "0 < nat a" using j by (cases "nat a") auto
    show "0 < nat b" using j by (cases "nat b") auto
    show "0 < nat c" using j by (cases "nat c") auto
  qed
  have 1: "j div (nat b * nat c) < nat a" using j pos
    by (simp add: less_mult_imp_div_less mult.commute)
  have 2: "j mod (nat b * nat c) < nat b * nat c" using pos by simp
  have 3: "(j mod (nat b * nat c)) div nat c < nat b" using 2 pos
    by (simp add: less_mult_imp_div_less)
  have 4: "(j mod (nat b * nat c)) mod nat c = j mod nat c"
    by (simp add: mod_mod_cancel)
  have 5: "j mod nat c < nat c" using pos by simp
  have nth: "\<And>k n. k < nat n \<Longrightarrow> [0..n - 1] ! k = int k"
    by (subst nth_upto) auto
  show ?thesis
    unfolding cells_def using j 1 2 3 5
    by (simp add: product_nth 4 nth)
qed


subsection \<open>Codes and ids\<close>

lemma fromId_props:
  "bid (fromId i) = Some (if 0 \<le> i \<and> i \<le> 21 then i else 0) \<and> \<not> xray (fromId i) \<and> \<not> rentgenView (fromId i)"
proof -
  have v: "\<And>b. bid b \<noteq> None \<Longrightarrow> bid (validateBlockType (Some b)) = bid b \<and>
        xray (validateBlockType (Some b)) = xray b \<and> rentgenView (validateBlockType (Some b)) = rentgenView b"
    by (auto simp: validateBlockType_def)
  have t: "\<And>i sp tr sl gr fl tex. bid (block_type i sp tr sl gr fl tex) = Some i \<and>
      \<not> xray (block_type i sp tr sl gr fl tex) \<and> \<not> rentgenView (block_type i sp tr sl gr fl tex)"
    by (simp add: block_type_def validateBlockType_def)
  have d: "bid (validateBlockType None) = Some 0 \<and> \<not> xray (validateBlockType None) \<and> \<not> rentgenView (validateBlockType None)"
    by (simp add: validateBlockType_def defaultBlock_def)
  show ?thesis
    unfolding fromId_def block_types_def block_type_defs
    by (simp add: v t d) arith
qed

lemma block_code_validateBlock:
  assumes "bid b = Some k" "\<not> xray b" "\<not> rentgenView b"
  shows "block_code (validateBlock (Some b)) = fromCharCode (97 + k)"
  using assms
  by (auto simp: validateBlock_def block_code_def bid_AIR validateBlockType_def)

lemma block_code_roundtrip:
  "block_code (validateBlock (Some (block_of_code (Some (uint c))))) = code_norm c"
proof -
  from fromId_props[of "uint c - 97"]
  have "block_code (validateBlock (Some (fromId (uint c - 97)))) =
          fromCharCode (97 + (if 0 \<le> uint c - 97 \<and> uint c - 97 \<le> 21 then uint c - 97 else 0))"
    by (intro block_code_validateBlock) auto
  then show ?thesis
    by (auto simp: block_of_code_def code_norm_def fromCharCode_def)
qed


lemma createFromString_loop:
  assumes "grid_ok w" "int (length s) = sx w * sy w * sz w"
  shows "\<exists>w'. createFromString w s = Inr w' \<and> w' = w \<lparr> blocks := blocks w' \<rparr> \<and>
           (\<forall>j < length s. case cells (sx w) (sy w) (sz w) ! j of
               (x, y, z) \<Rightarrow> grid_get (blocks w') x y z = Inr (Some (fromId (uint (s ! j) - 97))))"
proof -
  let ?cs = "cells (sx w) (sy w) (sz w)"
  from assms(1) have pos: "0 \<le> sx w" "0 \<le> sy w" "0 \<le> sz w" by (auto simp: grid_ok_def)
  have len: "length ?cs = length s"
    using length_cells[OF pos] assms(2) by simp
  have pre: "\<forall>(x, y, z) \<in> set ?cs. grid_has (blocks w) x y \<and> 0 \<le> z"
    using grid_ok_has[OF assms(1)] by (auto simp: set_cells grid_has_def)
  from write_loop[OF distinct_cells pre, of s 0]
  obtain bs' where
    f: "fold_err (createFromString_cell s) ?cs (0, blocks w) = Inr (length ?cs, bs')"
    and rd: "\<forall>j < length ?cs. case ?cs ! j of (x, y, z) \<Rightarrow>
               grid_get bs' x y z = Inr (Some (block_of_code (charCodeAt s j)))"
    by auto
  have 1: "createFromString w s = Inr (w \<lparr> blocks := bs' \<rparr>)"
    using assms(2) f by (simp add: createFromString_def)
  have 2: "\<forall>j < length s. case ?cs ! j of
               (x, y, z) \<Rightarrow> grid_get bs' x y z = Inr (Some (fromId (uint (s ! j) - 97)))"
    using rd len by (auto simp: charCodeAt_def block_of_code_def)
  from 1 2 show ?thesis by simp
qed

lemma toNetworkString_after:
  assumes "length (cells (sx w) (sy w) (sz w)) = length s"
    and "\<forall>j < length s. case cells (sx w) (sy w) (sz w) ! j of
               (x, y, z) \<Rightarrow> grid_get (blocks w) x y z = Inr (Some (fromId (uint (s ! j) - 97)))"
  shows "toNetworkString w = Inr (map code_norm s)"
proof -
  let ?cs = "cells (sx w) (sy w) (sz w)"
  have "fold_err (toNetworkString_cell (blocks w)) ?cs [] =
          Inr ([] @ map (\<lambda>j. block_code (validateBlock (Some (fromId (uint (s ! j) - 97))))) [0..<length ?cs])"
    by (rule read_loop) (use assms in auto)
  also have "map (\<lambda>j. block_code (validateBlock (Some (fromId (uint (s ! j) - 97))))) [0..<length ?cs]
             = map (\<lambda>j. code_norm (s ! j)) [0..<length s]"
    using block_code_roundtrip by (simp add: assms(1) block_of_code_def)
  also have "\<dots> = map code_norm s"
    by (intro nth_equalityI) auto
  finally show ?thesis by (simp add: toNetworkString_def)
qed

text \<open>
  C4 (as amended). On a well-formed world, \<open>createFromString(s)\<close> throws the size-mismatch
  error when the length of \<open>s\<close> differs from \<open>sx * sy * sz\<close>. Otherwise it succeeds and
  changes only \<open>blocks\<close>: the \<open>j\<close>-th code unit, read with \<open>x\<close> outermost, then \<open>y\<close>,
  then \<open>z\<close>, fills its cell with \<open>BLOCK.fromId(code - 97)\<close>. Serialising the result gives,
  in the same order, one code unit per cell: the unit of \<open>s\<close> when it is one of the 22
  registered ids plus 97 (\<open>a\<close> to \<open>v\<close>), and 97 (\<open>a\<close>, AIR) for any other unit. So the
  round trip returns \<open>s\<close> exactly for every \<open>s\<close> made of the units 97 to 118.
\<close>

theorem createFromString_roundtrip:
  assumes "grid_ok w"
  shows "(int (length s) \<noteq> sx w * sy w * sz w \<longrightarrow>
            createFromString w s = Inl (Error ''String length does not match world dimensions.''))
       \<and> (int (length s) = sx w * sy w * sz w \<longrightarrow>
            (\<exists>w'. createFromString w s = Inr w' \<and> w' = w \<lparr> blocks := blocks w' \<rparr> \<and>
               (\<forall>j < length s.
                  grid_get (blocks w') (int (j div (nat (sy w) * nat (sz w))))
                     (int ((j mod (nat (sy w) * nat (sz w))) div nat (sz w))) (int (j mod nat (sz w)))
                   = Inr (Some (fromId (uint (s ! j) - 97)))) \<and>
               toNetworkString w' = Inr (map (\<lambda>c. if 97 \<le> uint c \<and> uint c \<le> 118 then c else 97) s) \<and>
               ((\<forall>c \<in> set s. 97 \<le> uint c \<and> uint c \<le> 118) \<longrightarrow> toNetworkString w' = Inr s)))"
proof (intro conjI impI)
  assume "int (length s) \<noteq> sx w * sy w * sz w"
  then show "createFromString w s = Inl (Error ''String length does not match world dimensions.'')"
    by (simp add: createFromString_def)
next
  assume l: "int (length s) = sx w * sy w * sz w"
  let ?cs = "cells (sx w) (sy w) (sz w)"
  from assms have pos: "0 \<le> sx w" "0 \<le> sy w" "0 \<le> sz w" by (auto simp: grid_ok_def)
  have len: "length ?cs = length s" using length_cells[OF pos] l by simp
  from createFromString_loop[OF assms l] obtain w' where
    c: "createFromString w s = Inr w'" and fr: "w' = w \<lparr> blocks := blocks w' \<rparr>"
    and rd: "\<forall>j < length s. case ?cs ! j of
               (x, y, z) \<Rightarrow> grid_get (blocks w') x y z = Inr (Some (fromId (uint (s ! j) - 97)))"
    by blast
  from fr have dims: "sx w' = sx w" "sy w' = sy w" "sz w' = sz w"
    by (metis world.select_convs world.surjective world.update_convs)+
  have idx: "\<forall>j < length s.
                  grid_get (blocks w') (int (j div (nat (sy w) * nat (sz w))))
                     (int ((j mod (nat (sy w) * nat (sz w))) div nat (sz w))) (int (j mod nat (sz w)))
                   = Inr (Some (fromId (uint (s ! j) - 97)))"
    using rd cells_nth[of _ "sx w" "sy w" "sz w"] len by fastforce
  have ser: "toNetworkString w' = Inr (map code_norm s)"
    by (rule toNetworkString_after) (use rd len dims in auto)
  have ser': "toNetworkString w' = Inr (map (\<lambda>c. if 97 \<le> uint c \<and> uint c \<le> 118 then c else 97) s)"
    using ser by (simp add: code_norm_def[abs_def])
  have rt: "(\<forall>c \<in> set s. 97 \<le> uint c \<and> uint c \<le> 118) \<longrightarrow> toNetworkString w' = Inr s"
    using ser by (auto simp: code_norm_def map_idI)
  from c fr idx ser' rt
  show "\<exists>w'. createFromString w s = Inr w' \<and> w' = w \<lparr> blocks := blocks w' \<rparr> \<and>
               (\<forall>j < length s.
                  grid_get (blocks w') (int (j div (nat (sy w) * nat (sz w))))
                     (int ((j mod (nat (sy w) * nat (sz w))) div nat (sz w))) (int (j mod nat (sz w)))
                   = Inr (Some (fromId (uint (s ! j) - 97)))) \<and>
               toNetworkString w' = Inr (map (\<lambda>c. if 97 \<le> uint c \<and> uint c \<le> 118 then c else 97) s) \<and>
               ((\<forall>c \<in> set s. 97 \<le> uint c \<and> uint c \<le> 118) \<longrightarrow> toNetworkString w' = Inr s)"
    by blast
qed


lemma createFromString_norm:
  assumes "grid_ok w" "int (length s) = sx w * sy w * sz w"
  shows "\<exists>w'. createFromString w s = Inr w' \<and> toNetworkString w' = Inr (map code_norm s)"
proof -
  let ?cs = "cells (sx w) (sy w) (sz w)"
  from assms have pos: "0 \<le> sx w" "0 \<le> sy w" "0 \<le> sz w" by (auto simp: grid_ok_def)
  have len: "length ?cs = length s" using length_cells[OF pos] assms(2) by simp
  from createFromString_loop[OF assms] obtain w' where
    c: "createFromString w s = Inr w'" and fr: "w' = w \<lparr> blocks := blocks w' \<rparr>"
    and rd: "\<forall>j < length s. case ?cs ! j of
               (x, y, z) \<Rightarrow> grid_get (blocks w') x y z = Inr (Some (fromId (uint (s ! j) - 97)))"
    by blast
  from fr have dims: "sx w' = sx w" "sy w' = sy w" "sz w' = sz w"
    by (metis world.select_convs world.surjective world.update_convs)+
  have "toNetworkString w' = Inr (map code_norm s)"
    by (rule toNetworkString_after) (use rd len dims in auto)
  with c show ?thesis by blast
qed

theorem createFromString_roundtrip_witness:
  "grid_ok demo_world \<and>
   createFromString demo_world [98] = Inl (Error ''String length does not match world dimensions.'') \<and>
   (\<exists>w'. createFromString demo_world [98, 118] = Inr w' \<and>
         grid_get (blocks w') 0 0 1 = Inr (Some (fromId 21)) \<and>
         toNetworkString w' = Inr [98, 118])"
proof -
  have g: "grid_ok demo_world" by (simp add: grid_ok_def demo_world_def)
  have l: "int (length [98, 118 :: 16 word]) = sx demo_world * sy demo_world * sz demo_world"
    by (simp add: demo_world_def)
  have n: "int (length [98 :: 16 word]) \<noteq> sx demo_world * sy demo_world * sz demo_world"
    by (simp add: demo_world_def)
  from createFromString_roundtrip[OF g, of "[98]"] n
  have e: "createFromString demo_world [98] = Inl (Error ''String length does not match world dimensions.'')"
    by blast
  from createFromString_roundtrip[OF g, of "[98, 118]"] l
  obtain w' where c: "createFromString demo_world [98, 118] = Inr w'"
    and i: "\<forall>j < length [98, 118 :: 16 word].
                  grid_get (blocks w') (int (j div (nat (sy demo_world) * nat (sz demo_world))))
                     (int ((j mod (nat (sy demo_world) * nat (sz demo_world))) div nat (sz demo_world)))
                     (int (j mod nat (sz demo_world)))
                   = Inr (Some (fromId (uint ([98, 118 :: 16 word] ! j) - 97)))"
    and r: "(\<forall>c \<in> set [98, 118 :: 16 word]. 97 \<le> uint c \<and> uint c \<le> 118) \<longrightarrow> toNetworkString w' = Inr [98, 118]"
    by blast
  have i1: "grid_get (blocks w') 0 0 1 = Inr (Some (fromId 21))"
    using i[rule_format, of 1] by (simp add: demo_world_def)
  from r have "toNetworkString w' = Inr [98, 118]" by simp
  with g e c i1 show ?thesis by blast
qed

text \<open>
  The claim as stated fails: the unit 122 (\<open>z\<close>) names no registered block, is stored as the
  default block and is serialised as 97.
\<close>

theorem createFromString_roundtrip_counterexample:
  "int (length [122, 98 :: 16 word]) = sx demo_world * sy demo_world * sz demo_world \<and>
   (case createFromString demo_world [122, 98] of Inl e \<Rightarrow> Inl e | Inr w' \<Rightarrow> toNetworkString w')
     = Inr [97, 98] \<and>
   [97, 98] \<noteq> [122, 98 :: 16 word]"
proof -
  have g: "grid_ok demo_world" by (simp add: grid_ok_def demo_world_def)
  have l: "int (length [122, 98 :: 16 word]) = sx demo_world * sy demo_world * sz demo_world"
    by (simp add: demo_world_def)
  from createFromString_norm[OF g l] obtain w' where
    "createFromString demo_world [122, 98] = Inr w'"
    "toNetworkString w' = Inr (map code_norm [122, 98])" by blast
  with l show ?thesis by (simp add: code_norm_def)
qed

subsection \<open>Mesh building\<close>

lemma fold_err_append:
  "fold_err f (xs @ ys) s = (case fold_err f xs s of Inl e \<Rightarrow> Inl e | Inr s' \<Rightarrow> fold_err f ys s')"
  by (induction xs arbitrary: s) (auto split: sum.splits)

lemma fold_err_skip:
  assumes "\<forall>a \<in> set xs. \<forall>s. f a s = Inr s"
  shows "fold_err f xs s = Inr s"
  using assms by (induction xs) auto

lemma grid_get_opt_get:
  "grid_has bs x y \<Longrightarrow> grid_get bs x y z = Inr (grid_get_opt bs x y z)"
  by (simp add: grid_get_def grid_get_opt_def grid_has_def arr_get_def)

lemma world_dense_cell:
  assumes "world_dense w" "isInBounds w x y z"
  shows "\<exists>b. grid_get_opt (blocks w) x y z = Some b \<and> grid_get (blocks w) x y z = Inr (Some b)"
proof -
  from assms have g: "grid_ok w" and bnd: "0 \<le> x" "x < sx w" "0 \<le> y" "y < sy w"
    by (auto simp: world_dense_def isInBounds_def)
  from assms have "(x, y, z) \<in> set (cells (sx w) (sy w) (sz w))"
    by (simp add: set_cells isInBounds_def)
  with assms(1) have "grid_get_opt (blocks w) x y z \<noteq> None"
    unfolding world_dense_def list_all_iff by blast
  moreover have "grid_has (blocks w) x y"
    using grid_ok_has[OF g bnd] bnd by (simp add: grid_has_def)
  ultimately show ?thesis by (auto simp: grid_get_opt_get)
qed

lemma neighbour_flag_dense:
  assumes "world_dense w" "isInBounds w x y z"
  shows "neighbour_flag flag (blocks w) x y z =
           Inr (case grid_get_opt (blocks w) x y z of None \<Rightarrow> False | Some nb \<Rightarrow> flag nb)"
  using world_dense_cell[OF assms] by (auto simp: neighbour_flag_def)

lemma face_visible_dense:
  assumes "world_dense w" "isInBounds w x y z"
  shows "face_visible w block x y z dir = Inr (face_open w x y z dir \<or> (dir = UP \<and> fluid block))"
proof (cases dir)
  case UP
  show ?thesis
  proof (cases "z = sz w - 1")
    case True
    then show ?thesis by (simp add: UP face_open_def isInBounds_def)
  next
    case False
    with assms(2) have "isInBounds w x y (z + 1)" by (auto simp: isInBounds_def)
    from neighbour_flag_dense[OF assms(1) this] this False show ?thesis
      by (simp add: UP face_open_def)
  qed
next
  case DOWN
  show ?thesis
  proof (cases "z = 0")
    case True
    then show ?thesis by (simp add: DOWN face_open_def isInBounds_def)
  next
    case False
    with assms(2) have "isInBounds w x y (z - 1)" by (auto simp: isInBounds_def)
    from neighbour_flag_dense[OF assms(1) this] this False show ?thesis
      by (simp add: DOWN face_open_def)
  qed
next
  case LEFT
  show ?thesis
  proof (cases "x = 0")
    case True
    then show ?thesis by (simp add: LEFT face_open_def isInBounds_def)
  next
    case False
    with assms(2) have "isInBounds w (x - 1) y z" by (auto simp: isInBounds_def)
    from neighbour_flag_dense[OF assms(1) this] this False show ?thesis
      by (simp add: LEFT face_open_def)
  qed
next
  case RIGHT
  show ?thesis
  proof (cases "x = sx w - 1")
    case True
    then show ?thesis by (simp add: RIGHT face_open_def isInBounds_def)
  next
    case False
    with assms(2) have "isInBounds w (x + 1) y z" by (auto simp: isInBounds_def)
    from neighbour_flag_dense[OF assms(1) this] this False show ?thesis
      by (simp add: RIGHT face_open_def)
  qed
next
  case FORWARD
  show ?thesis
  proof (cases "y = 0")
    case True
    then show ?thesis by (simp add: FORWARD face_open_def isInBounds_def)
  next
    case False
    with assms(2) have "isInBounds w x (y - 1) z" by (auto simp: isInBounds_def)
    from neighbour_flag_dense[OF assms(1) this] this False show ?thesis
      by (simp add: FORWARD face_open_def)
  qed
next
  case BACK
  show ?thesis
  proof (cases "y = sy w - 1")
    case True
    then show ?thesis by (simp add: BACK face_open_def isInBounds_def)
  next
    case False
    with assms(2) have "isInBounds w x (y + 1) z" by (auto simp: isInBounds_def)
    from neighbour_flag_dense[OF assms(1) this] this False show ?thesis
      by (simp add: BACK face_open_def)
  qed
qed

lemma list4: "length xs = 4 \<Longrightarrow> \<exists>a b c d. xs = [a, b, c, d]"
  by (cases xs; simp; rename_tac ys; case_tac ys; simp; rename_tac zs; case_tac zs; simp;
      rename_tac us; case_tac us; simp)

lemma length_quad_vertex: "length (quad_vertex p t l) = 9"
  by (cases p; cases t) (simp add: quad_vertex_def)

lemma pushQuad4:
  assumes "length v1 = 9" "length v2 = 9" "length v3 = 9" "length v4 = 9"
  shows "pushQuad vs [v1, v2, v3, v4] = vs @ (v1 @ v2 @ v3) @ (v3 @ v4 @ v1)"
  using assms by (simp add: pushQuad_def)

lemma pushQuad_makeQuad:
  assumes "length ps = 4" "length ts = 4"
  shows "pushQuad vs (makeQuad ps ts l) = vs @ pushQuad [] (makeQuad ps ts l) \<and>
         length (pushQuad [] (makeQuad ps ts l)) = 54"
proof -
  from list4[OF assms(1)] obtain p1 p2 p3 p4 where p: "ps = [p1, p2, p3, p4]" by blast
  from list4[OF assms(2)] obtain t1 t2 t3 t4 where t: "ts = [t1, t2, t3, t4]" by blast
  have m: "makeQuad ps ts l = [quad_vertex p1 t1 l, quad_vertex p2 t2 l, quad_vertex p3 t3 l, quad_vertex p4 t4 l]"
    by (simp add: p t makeQuad_def)
  show ?thesis
    unfolding m by (simp add: pushQuad4 length_quad_vertex)
qed

lemma length_face_positions: "length (face_positions dir x y z bH) = 4"
  by (cases dir) auto

lemma length_face_texCoords: "length (face_texCoords dir c) = 4"
  by (cases dir) auto

lemma push_face_textured:
  assumes "textured block"
  shows "push_face block blockLit bH l x y z dir vs = Inr (vs @ quad_data block blockLit bH l x y z dir)
       \<and> length (quad_data block blockLit bH l x y z dir) = 54"
proof -
  from assms obtain tex where t: "texture block = Some tex"
    and len: "\<And>d lit. 4 \<le> length (tex lit d)"
  proof -
    from assms obtain tex where t: "texture block = Some tex"
      by (auto simp: textured_def split: option.splits)
    with assms have "\<forall>d \<in> set face_order. 4 \<le> length (tex True d) \<and> 4 \<le> length (tex False d)"
      by (simp add: textured_def list_all_iff)
    moreover have "\<And>d. d \<in> set face_order" by (case_tac d) (auto simp: face_order_def)
    ultimately have "\<And>d lit. 4 \<le> length (tex lit d)" by (case_tac lit) auto
    with t that show ?thesis by blast
  qed
  from len[of blockLit dir] obtain c where c: "adjustTexture (tex blockLit dir) = Some c"
    by (auto simp: adjustTexture_def Let_def)
  let ?M = "makeQuad (face_positions dir (of_int x) (of_int y) (of_int z) bH) (face_texCoords dir c) l"
  have 1: "push_face block blockLit bH l x y z dir vs = Inr (pushQuad vs ?M)"
    by (simp add: push_face_def t c)
  have 2: "quad_data block blockLit bH l x y z dir = pushQuad [] ?M"
    by (simp add: quad_data_def t c)
  from pushQuad_makeQuad[OF length_face_positions length_face_texCoords, of vs dir "of_int x" "of_int y" "of_int z" bH dir c l]
  have a: "pushQuad vs ?M = vs @ pushQuad [] ?M" and b: "length (pushQuad [] ?M) = 54"
    by blast+
  show ?thesis unfolding 1 2 using a b by blast
qed


lemma fold_err_faces:
  assumes "\<And>dir vs'. step dir vs' = Inr (vs' @ g dir)"
  shows "fold_err step ds vs = Inr (vs @ concat (map g ds))"
  by (induction ds arbitrary: vs) (simp_all add: assms)

lemma fluid_surface_dense:
  assumes "world_dense w" "isInBounds w x y z"
  shows "\<exists>surface. fluid_surface w block x y z = Inr surface"
proof (cases "fluid block \<and> z \<noteq> sz w - 1")
  case True
  with assms(2) have "isInBounds w x y (z + 1)" by (auto simp: isInBounds_def)
  from neighbour_flag_dense[OF assms(1) this] True show ?thesis by (simp add: fluid_surface_def)
next
  case False
  then show ?thesis by (auto simp: fluid_surface_def)
qed

lemma push_faces_dense:
  assumes "world_dense w" "isInBounds w x y z" "textured block"
  shows "push_faces w block blockLit bH l x y z vs =
           Inr (vs @ concat (map (\<lambda>dir. if face_open w x y z dir \<or> (dir = UP \<and> fluid block)
                                         then quad_data block blockLit bH l x y z dir else [])
                              face_order))"
  unfolding push_faces_def
  by (rule fold_err_faces)
     (use face_visible_dense[OF assms(1,2)] push_face_textured[OF assms(3)] in auto)

lemma pushVertices_dense:
  assumes "world_dense w" "isInBounds w x y z" "grid_get_opt (blocks w) x y z = Some block"
    "bid block \<noteq> bid AIR" "textured block"
  shows "\<exists>blockLit bH l. pushVertices vs w lm x y z =
           Inr (vs @ concat (map (\<lambda>dir. if face_open w x y z dir \<or> (dir = UP \<and> fluid block)
                                         then quad_data block blockLit bH l x y z dir else [])
                              face_order))"
proof -
  from fluid_surface_dense[OF assms(1,2)] obtain surface
    where "fluid_surface w block x y z = Inr surface" by blast
  then show ?thesis
    using assms(3,4) push_faces_dense[OF assms(1,2,5)]
    by (simp add: pushVertices_def Let_def) blast
qed


lemma fold_err_single:
  assumes "distinct cs" "c \<in> set cs" "\<forall>a \<in> set cs. a \<noteq> c \<longrightarrow> (\<forall>s. f a s = Inr s)"
  shows "fold_err f cs s = f c s"
proof -
  from split_list[OF assms(2)] obtain pre post where cs: "cs = pre @ c # post" by blast
  with assms(1) have n: "c \<notin> set pre" "c \<notin> set post" by auto
  have 1: "fold_err f pre s = Inr s"
    by (rule fold_err_skip) (use assms(3) cs n in auto)
  have 2: "\<And>s'. fold_err f post s' = Inr s'"
    by (rule fold_err_skip) (use assms(3) cs n in auto)
  show ?thesis by (simp add: cs fold_err_append 1 2 split: sum.splits)
qed

lemma cells_between_origin: "cells_between (0, 0, 0) (a, b, c) = cells a b c"
  by (simp add: cells_between_def cells_def)

subsection \<open>The example worlds\<close>

lemma single_dirt_cell:
  assumes "0 \<le> x" "x < 10" "0 \<le> y" "y < 10" "0 \<le> z" "z < 10"
  shows "grid_get_opt (blocks single_dirt_world) x y z =
           Some (if x = 5 \<and> y = 5 \<and> z = 5 then DIRT else AIR)"
  using assms
  by (auto simp: single_dirt_world_def grid_get_opt_def arr_get_def cell_get_def nth_list_update nat_eq_iff)

lemma single_dirt_dense: "world_dense single_dirt_world"
proof -
  have g: "grid_ok single_dirt_world"
    by (auto simp: grid_ok_def single_dirt_world_def list_all_length nth_list_update)
  have d: "sx single_dirt_world = 10" "sy single_dirt_world = 10" "sz single_dirt_world = 10"
    by (simp_all add: single_dirt_world_def)
  show ?thesis
    unfolding world_dense_def list_all_iff d
    using g single_dirt_cell by (auto simp: set_cells)
qed


lemma length_validateTextureCoords: "length (validateTextureCoords c) = 4"
  by (simp add: validateTextureCoords_def)

lemma textured_validateBlockType: "textured (validateBlockType b)"
  by (cases b)
     (simp_all add: textured_def validateBlockType_def defaultBlock_def defaultTexture_def
        length_validateTextureCoords list_all_iff)

lemma textured_block_type: "textured (block_type i sp tr sl gr fl tex)"
  by (simp add: block_type_def textured_validateBlockType)

lemma transparent_block_type: "transparent (block_type i sp tr sl gr fl tex) = tr"
  by (simp add: block_type_def validateBlockType_def)

lemma fluid_block_type: "fluid (block_type i sp tr sl gr fl tex) = fl"
  by (simp add: block_type_def validateBlockType_def)

lemma single_dirt_open: "face_open single_dirt_world 5 5 5 dir"
proof -
  have d: "sx single_dirt_world = 10" "sy single_dirt_world = 10" "sz single_dirt_world = 10"
    by (simp_all add: single_dirt_world_def)
  have t: "transparent AIR" by (simp add: AIR_def transparent_block_type)
  have n: "grid_get_opt (blocks single_dirt_world) 5 5 6 = Some AIR"
      "grid_get_opt (blocks single_dirt_world) 5 5 4 = Some AIR"
      "grid_get_opt (blocks single_dirt_world) 5 4 5 = Some AIR"
      "grid_get_opt (blocks single_dirt_world) 5 6 5 = Some AIR"
      "grid_get_opt (blocks single_dirt_world) 4 5 5 = Some AIR"
      "grid_get_opt (blocks single_dirt_world) 6 5 5 = Some AIR"
    using single_dirt_cell[of 5 5 6] single_dirt_cell[of 5 5 4] single_dirt_cell[of 5 4 5]
      single_dirt_cell[of 5 6 5] single_dirt_cell[of 4 5 5] single_dirt_cell[of 6 5 5]
    by simp_all
  show ?thesis
    by (cases dir) (simp_all add: face_open_def n t)
qed

lemma single_dirt_vertices:
  "\<exists>vs. fold_err (buildChunk_cell single_dirt_world) (cells 10 10 10) [] = Inr vs \<and> length vs = 6 * 54"
proof -
  let ?w = "single_dirt_world"
  have d: "sx ?w = 10" "sy ?w = 10" "sz ?w = 10" by (simp_all add: single_dirt_world_def)
  have skip: "\<forall>a \<in> set (cells 10 10 10). a \<noteq> (5, 5, 5) \<longrightarrow> (\<forall>s. buildChunk_cell ?w a s = Inr s)"
  proof (intro ballI impI allI)
    fix a :: "int \<times> int \<times> int" and s
    assume a: "a \<in> set (cells 10 10 10)" "a \<noteq> (5, 5, 5)"
    obtain x y z where xyz: "a = (x, y, z)" by (cases a) auto
    from a have b: "0 \<le> x" "x < 10" "0 \<le> y" "y < 10" "0 \<le> z" "z < 10"
      by (simp_all add: xyz set_cells)
    from a have "\<not> (x = 5 \<and> y = 5 \<and> z = 5)" by (simp add: xyz)
    with single_dirt_cell[OF b] have "grid_get_opt (blocks ?w) x y z = Some AIR" by simp
    then show "buildChunk_cell ?w a s = Inr s" by (simp add: buildChunk_cell_def xyz)
  qed
  have mem: "(5, 5, 5) \<in> set (cells 10 10 10)" by (simp add: set_cells)
  have 1: "fold_err (buildChunk_cell ?w) (cells 10 10 10) [] = buildChunk_cell ?w (5, 5, 5) []"
    by (rule fold_err_single[OF distinct_cells mem skip])
  have ne: "bid DIRT \<noteq> bid AIR" by (simp add: DIRT_def AIR_def bid_block_type)
  have c: "grid_get_opt (blocks ?w) 5 5 5 = Some DIRT" using single_dirt_cell[of 5 5 5] by simp
  have ib: "isInBounds ?w 5 5 5" by (simp add: isInBounds_def d)
  have t: "textured DIRT" by (simp add: DIRT_def textured_block_type)
  from pushVertices_dense[OF single_dirt_dense ib c ne t, of "[]" "lightmap ?w"]
  obtain blockLit bH l where
    pv: "pushVertices [] ?w (lightmap ?w) 5 5 5 =
           Inr ([] @ concat (map (\<lambda>dir. if face_open ?w 5 5 5 dir \<or> (dir = UP \<and> fluid DIRT)
                                         then quad_data DIRT blockLit bH l 5 5 5 dir else [])
                              face_order))" by blast
  have len: "\<And>dir. length (quad_data DIRT blockLit bH l 5 5 5 dir) = 54"
    using push_face_textured[OF t] by blast
  have 2: "buildChunk_cell ?w (5, 5, 5) [] = pushVertices [] ?w (lightmap ?w) 5 5 5"
    using ne by (simp add: buildChunk_cell_def c)
  show ?thesis
    unfolding 1 2 pv by (simp add: single_dirt_open face_order_def len)
qed

lemma single_dirt_buildChunk:
  assumes "\<not> context_lost g"
  shows "\<exists>g' c'. buildChunk g single_dirt_world single_dirt_chunk = Inr (g', c') \<and>
           \<not> dirty c' \<and> map_option (length \<circ> vertex_data) (buffer c') = Some (6 * 54) \<and>
           map_option vertices (buffer c') = Some 36"
proof -
  from single_dirt_vertices obtain vs where
    vs: "fold_err (buildChunk_cell single_dirt_world) (cells 10 10 10) [] = Inr vs" "length vs = 6 * 54"
    by blast
  show ?thesis
    using assms vs
    by (simp add: buildChunk_def single_dirt_chunk_def cells_between_origin createBuffer_def)
qed


lemma neighbour_opposite:
  "neighbour dir x y z = (nx, ny, nz) \<Longrightarrow> neighbour (opposite dir) nx ny nz = (x, y, z)"
  by (cases dir) auto

lemma opposite_UP: "opposite dir = UP \<longleftrightarrow> dir = DOWN"
  by (cases dir) auto

text \<open>
  C5 (as amended). In a world whose in-bounds cells all hold block objects, for a
  non-air cell with a texture function, each of the six face tests is decided on its own:
  the quad of a side is emitted iff the neighbour on that side is transparent (the world
  edge counting as transparent) or, for the top face only, the block itself is fluid; the
  vertex data appended is exactly the 54 numbers of each emitted face, in the order top,
  bottom, front, back, left, right. Building the chunk of the 10 x 10 x 10 world that is
  all AIR except one DIRT block at \<open>(5, 5, 5)\<close> yields exactly 6 faces (36 vertices). Two
  adjacent non-transparent, non-fluid cells emit no face on their shared boundary.
\<close>

theorem pushVertices_faces:
  "(world_dense w \<and> isInBounds w x y z \<and> grid_get_opt (blocks w) x y z = Some block \<and>
    bid block \<noteq> bid AIR \<and> textured block \<longrightarrow>
      (\<forall>dir. face_visible w block x y z dir =
               Inr (face_open w x y z dir \<or> (dir = UP \<and> fluid block))) \<and>
      (\<exists>blockLit bH l.
          pushVertices vs w lm x y z =
            Inr (vs @ concat (map (\<lambda>dir. if face_open w x y z dir \<or> (dir = UP \<and> fluid block)
                                          then quad_data block blockLit bH l x y z dir else [])
                               face_order)) \<and>
          (\<forall>dir. length (quad_data block blockLit bH l x y z dir) = 54)))
   \<and> (\<not> context_lost g \<longrightarrow>
        (\<exists>g' c'. buildChunk g single_dirt_world single_dirt_chunk = Inr (g', c') \<and> \<not> dirty c' \<and>
                 map_option (length \<circ> vertex_data) (buffer c') = Some (6 * 54) \<and>
                 map_option vertices (buffer c') = Some 36))
   \<and> (world_dense w \<and> isInBounds w x y z \<and> neighbour dir x y z = (nx, ny, nz) \<and>
       isInBounds w nx ny nz \<and> grid_get_opt (blocks w) x y z = Some block \<and>
       grid_get_opt (blocks w) nx ny nz = Some nb \<and>
       \<not> transparent block \<and> \<not> transparent nb \<and> \<not> fluid block \<and> \<not> fluid nb \<longrightarrow>
         face_visible w block x y z dir = Inr False \<and>
         face_visible w nb nx ny nz (opposite dir) = Inr False)"
proof (intro conjI impI)
  assume a: "world_dense w \<and> isInBounds w x y z \<and> grid_get_opt (blocks w) x y z = Some block \<and>
    bid block \<noteq> bid AIR \<and> textured block"
  then show "\<forall>dir. face_visible w block x y z dir =
               Inr (face_open w x y z dir \<or> (dir = UP \<and> fluid block))"
    using face_visible_dense by blast
  from a have d: "world_dense w" and i: "isInBounds w x y z"
    and c: "grid_get_opt (blocks w) x y z = Some block" and n: "bid block \<noteq> bid AIR"
    and t: "textured block" by blast+
  from pushVertices_dense[OF d i c n t, of vs lm] push_face_textured[OF t]
  show "\<exists>blockLit bH l.
          pushVertices vs w lm x y z =
            Inr (vs @ concat (map (\<lambda>dir. if face_open w x y z dir \<or> (dir = UP \<and> fluid block)
                                          then quad_data block blockLit bH l x y z dir else [])
                               face_order)) \<and>
          (\<forall>dir. length (quad_data block blockLit bH l x y z dir) = 54)"
    by blast
next
  assume "\<not> context_lost g"
  then show "\<exists>g' c'. buildChunk g single_dirt_world single_dirt_chunk = Inr (g', c') \<and> \<not> dirty c' \<and>
                 map_option (length \<circ> vertex_data) (buffer c') = Some (6 * 54) \<and>
                 map_option vertices (buffer c') = Some 36"
    by (rule single_dirt_buildChunk)
next
  assume a: "world_dense w \<and> isInBounds w x y z \<and> neighbour dir x y z = (nx, ny, nz) \<and>
       isInBounds w nx ny nz \<and> grid_get_opt (blocks w) x y z = Some block \<and>
       grid_get_opt (blocks w) nx ny nz = Some nb \<and>
       \<not> transparent block \<and> \<not> transparent nb \<and> \<not> fluid block \<and> \<not> fluid nb"
  then have d: "world_dense w" and i: "isInBounds w x y z" and i': "isInBounds w nx ny nz"
    and nb: "neighbour dir x y z = (nx, ny, nz)" by blast+
  from neighbour_opposite[OF nb] have nb': "neighbour (opposite dir) nx ny nz = (x, y, z)" .
  show "face_visible w block x y z dir = Inr False"
    using a by (simp add: face_visible_dense[OF d i] face_open_def nb)
  show "face_visible w nb nx ny nz (opposite dir) = Inr False"
    using a by (simp add: face_visible_dense[OF d i'] face_open_def nb')
qed

lemma water_under_dirt_dense: "world_dense water_under_dirt"
  by (simp add: world_dense_def grid_ok_def water_under_dirt_def cells_def grid_get_opt_def
        arr_get_def cell_get_def upto.simps)

lemma dirt_pair_dense: "world_dense dirt_pair"
  by (simp add: world_dense_def grid_ok_def dirt_pair_def cells_def grid_get_opt_def
        arr_get_def cell_get_def upto.simps)


lemma water_facts:
  "grid_get_opt (blocks water_under_dirt) 0 0 0 = Some WATER"
  "grid_get_opt (blocks water_under_dirt) 0 0 1 = Some DIRT"
  "isInBounds water_under_dirt 0 0 0" "isInBounds water_under_dirt 0 0 1"
  "bid WATER \<noteq> bid AIR" "textured WATER" "fluid WATER" "\<not> transparent DIRT"
  by (simp_all add: water_under_dirt_def grid_get_opt_def arr_get_def cell_get_def isInBounds_def
        WATER_def AIR_def DIRT_def bid_block_type textured_block_type fluid_block_type
        transparent_block_type)

lemma water_open:
  "face_open water_under_dirt 0 0 0 dir \<longleftrightarrow> dir \<noteq> UP"
  by (cases dir) (simp_all add: face_open_def water_facts, simp_all add: isInBounds_def water_under_dirt_def)

lemma dirt_pair_facts:
  "grid_get_opt (blocks dirt_pair) 0 0 0 = Some DIRT"
  "grid_get_opt (blocks dirt_pair) 1 0 0 = Some DIRT"
  "isInBounds dirt_pair 0 0 0" "isInBounds dirt_pair 1 0 0" "\<not> fluid DIRT"
  by (simp_all add: dirt_pair_def grid_get_opt_def arr_get_def cell_get_def isInBounds_def
        DIRT_def fluid_block_type)

theorem pushVertices_faces_witness:
  "world_dense water_under_dirt \<and> isInBounds water_under_dirt 0 0 0 \<and>
   grid_get_opt (blocks water_under_dirt) 0 0 0 = Some WATER \<and> bid WATER \<noteq> bid AIR \<and> textured WATER \<and>
   face_visible water_under_dirt WATER 0 0 0 DOWN = Inr True \<and>
   (\<exists>blockLit bH l. pushVertices [] water_under_dirt [[1]] 0 0 0 =
       Inr (concat (map (quad_data WATER blockLit bH l 0 0 0) face_order))) \<and>
   \<not> context_lost (gl demo_renderer) \<and>
   (\<exists>g' c'. buildChunk (gl demo_renderer) single_dirt_world single_dirt_chunk = Inr (g', c') \<and>
            map_option vertices (buffer c') = Some 36) \<and>
   world_dense dirt_pair \<and> neighbour RIGHT 0 0 0 = (1, 0, 0) \<and>
   face_visible dirt_pair DIRT 0 0 0 RIGHT = Inr False \<and>
   face_visible dirt_pair DIRT 1 0 0 LEFT = Inr False"
proof -
  note w = water_facts
  from pushVertices_faces[of water_under_dirt 0 0 0 WATER "[]" "[[1]]"] water_under_dirt_dense w
  have 1: "\<forall>dir. face_visible water_under_dirt WATER 0 0 0 dir =
               Inr (face_open water_under_dirt 0 0 0 dir \<or> (dir = UP \<and> fluid WATER))"
    and 2: "\<exists>blockLit bH l. pushVertices [] water_under_dirt [[1]] 0 0 0 =
            Inr ([] @ concat (map (\<lambda>dir. if face_open water_under_dirt 0 0 0 dir \<or> (dir = UP \<and> fluid WATER)
                                          then quad_data WATER blockLit bH l 0 0 0 dir else [])
                               face_order))"
    by blast+
  from 1 have a: "face_visible water_under_dirt WATER 0 0 0 DOWN = Inr True"
    by (simp add: water_open)
  have vis: "\<And>dir. face_open water_under_dirt 0 0 0 dir \<or> (dir = UP \<and> fluid WATER)"
    using water_open w by auto
  from 2 have b: "\<exists>blockLit bH l. pushVertices [] water_under_dirt [[1]] 0 0 0 =
       Inr (concat (map (quad_data WATER blockLit bH l 0 0 0) face_order))"
    by (simp add: vis)
  have g: "\<not> context_lost (gl demo_renderer)" by (simp add: demo_renderer_def)
  from pushVertices_faces[of _ _ _ _ _ _ _ "gl demo_renderer"] g
  have c: "\<exists>g' c'. buildChunk (gl demo_renderer) single_dirt_world single_dirt_chunk = Inr (g', c') \<and>
            map_option vertices (buffer c') = Some 36" by blast
  note p = dirt_pair_facts
  have n: "neighbour RIGHT 0 0 0 = (1, 0, 0)" by simp
  have o: "\<not> transparent DIRT" by (rule w)
  from pushVertices_faces[of dirt_pair 0 0 0 DIRT _ _ _ RIGHT 1 0 0 DIRT] dirt_pair_dense p n o
  have d: "face_visible dirt_pair DIRT 0 0 0 RIGHT = Inr False \<and>
        face_visible dirt_pair DIRT 1 0 0 (opposite RIGHT) = Inr False" by blast
  from a b g c d water_under_dirt_dense dirt_pair_dense w n show ?thesis by simp
qed

text \<open>
  The claim as stated fails: a WATER cell under a DIRT cell emits its top face (all six
  faces, 6 * 54 numbers), although the neighbour above is inside the world and not
  transparent.
\<close>

theorem top_face_counterexample:
  "grid_get_opt (blocks water_under_dirt) 0 0 0 = Some WATER \<and> bid WATER \<noteq> bid AIR \<and>
   neighbour UP 0 0 0 = (0, 0, 1) \<and> isInBounds water_under_dirt 0 0 1 \<and>
   map_option transparent (grid_get_opt (blocks water_under_dirt) 0 0 1) = Some False \<and>
   face_visible water_under_dirt WATER 0 0 0 UP = Inr True \<and>
   map_sum id length (pushVertices [] water_under_dirt (lightmap water_under_dirt) 0 0 0) = Inr (6 * 54)"
proof -
  note w = water_facts
  have 1: "face_visible water_under_dirt WATER 0 0 0 UP = Inr True"
    using face_visible_dense[OF water_under_dirt_dense w(3), of WATER UP] w(7)
    by (simp del: face_visible.simps)
  from pushVertices_dense[OF water_under_dirt_dense w(3) w(1) w(5) w(6), of "[]" "lightmap water_under_dirt"]
  obtain blockLit bH l where
    pv: "pushVertices [] water_under_dirt (lightmap water_under_dirt) 0 0 0 =
          Inr ([] @ concat (map (\<lambda>dir. if face_open water_under_dirt 0 0 0 dir \<or> (dir = UP \<and> fluid WATER)
                                          then quad_data WATER blockLit bH l 0 0 0 dir else [])
                               face_order))" by blast
  have len: "\<And>dir. length (quad_data WATER blockLit bH l 0 0 0 dir) = 54"
    using push_face_textured[OF w(6)] by blast
  have 2: "map_sum id length (pushVertices [] water_under_dirt (lightmap water_under_dirt) 0 0 0) = Inr (6 * 54)"
    unfolding pv by (simp add: water_open w face_order_def len)
  from 1 2 w show ?thesis by simp
qed

subsection \<open>The view frustum\<close>

lemma upt4: "[0..<4] = [0, 1, 2, 3]"
  by (simp add: upt_rec)

lemma mat4_multiply_entries:
  "mat4_multiply a b =
     [vec_dot (mat4_row a 0) (mat4_col b 0), vec_dot (mat4_row a 1) (mat4_col b 0),
      vec_dot (mat4_row a 2) (mat4_col b 0), vec_dot (mat4_row a 3) (mat4_col b 0),
      vec_dot (mat4_row a 0) (mat4_col b 1), vec_dot (mat4_row a 1) (mat4_col b 1),
      vec_dot (mat4_row a 2) (mat4_col b 1), vec_dot (mat4_row a 3) (mat4_col b 1),
      vec_dot (mat4_row a 0) (mat4_col b 2), vec_dot (mat4_row a 1) (mat4_col b 2),
      vec_dot (mat4_row a 2) (mat4_col b 2), vec_dot (mat4_row a 3) (mat4_col b 2),
      vec_dot (mat4_row a 0) (mat4_col b 3), vec_dot (mat4_row a 1) (mat4_col b 3),
      vec_dot (mat4_row a 2) (mat4_col b 3), vec_dot (mat4_row a 3) (mat4_col b 3)]"
  by (simp add: mat4_multiply_def upt4)

lemma isChunkInFrustum_loop_result:
  "isChunkInFrustum_loop n planes c =
     (if \<exists>plane \<in> set (take n planes). plane_rejects plane c then Inr False
      else if length planes < n then Inl TypeError else Inr True)"
proof (induction n arbitrary: planes)
  case 0
  then show ?case by simp
next
  case (Suc n)
  show ?case
  proof (cases planes)
    case Nil
    then show ?thesis by simp
  next
    case (Cons plane rest)
    with Suc[of rest] show ?thesis by auto
  qed
qed

lemma vec4_dot_normalize_value:
  assumes "x * x + y * y + z * z + w * w > 0"
  shows "vec4_dot (vec4_normalize (x, y, z, w)) q =
           vec4_dot (x, y, z, w) q / sqrt (x * x + y * y + z * z + w * w)"
proof -
  obtain a b c d where q: "q = (a, b, c, d)" by (cases q) auto
  show ?thesis
    using assms
    by (simp add: q vec4_dot_def vec4_normalize_def Let_def algebra_simps add_divide_distrib)
qed

lemma lt4_cases: "r < 4 \<Longrightarrow> r = 0 \<or> r = 1 \<or> r = 2 \<or> r = (3::nat)"
  by arith

lemma multiply_row_dot:
  assumes "r < 4"
  shows "vec_dot (mat4_row (mat4_multiply a b) r) [q0, q1, q2, q3] =
           a ! r * vec_dot (mat4_row b 0) [q0, q1, q2, q3]
         + a ! (4 + r) * vec_dot (mat4_row b 1) [q0, q1, q2, q3]
         + a ! (8 + r) * vec_dot (mat4_row b 2) [q0, q1, q2, q3]
         + a ! (12 + r) * vec_dot (mat4_row b 3) [q0, q1, q2, q3]"
  using lt4_cases[OF assms]
  by (elim disjE; simp add: mat4_multiply_entries mat4_row_def mat4_col_def vec_dot_def algebra_simps
        numeral_2_eq_2[symmetric] numeral_3_eq_3[symmetric])

lemma plane_rejects_iff:
  "plane_rejects plane ch \<longleftrightarrow> (\<forall>corner \<in> set (chunk_corners ch). vec4_dot plane corner < 0)"
  by (simp add: plane_rejects_def list_all_iff)

text \<open>
  C6 (as amended). The frustum test reports a chunk visible iff no single one of the six
  stored clip planes has all 8 corners of the chunk's box on its negative side; with fewer
  than six planes stored it still answers \<open>false\<close> when one of them rejects the chunk and throws
  otherwise. The chunk whose box contains the camera position is not exempt: it is rejected
  like any other chunk when one plane has all its corners on the negative side.
\<close>

theorem isChunkInFrustum_corners:
  "(6 \<le> length (frustumPlanes r) \<longrightarrow>
      isChunkInFrustum r ch =
        Inr (\<not> (\<exists>plane \<in> set (take 6 (frustumPlanes r)).
                  \<forall>corner \<in> set (chunk_corners ch). vec4_dot plane corner < 0)))
   \<and> (length (frustumPlanes r) < 6 \<longrightarrow>
      isChunkInFrustum r ch =
        (if \<exists>plane \<in> set (frustumPlanes r).
              \<forall>corner \<in> set (chunk_corners ch). vec4_dot plane corner < 0
         then Inr False else Inl TypeError))"
proof (intro conjI impI)
  assume "6 \<le> length (frustumPlanes r)"
  then show "isChunkInFrustum r ch =
        Inr (\<not> (\<exists>plane \<in> set (take 6 (frustumPlanes r)).
                  \<forall>corner \<in> set (chunk_corners ch). vec4_dot plane corner < 0))"
    by (simp add: isChunkInFrustum_def isChunkInFrustum_loop_result plane_rejects_iff)
next
  assume "length (frustumPlanes r) < 6"
  then show "isChunkInFrustum r ch =
        (if \<exists>plane \<in> set (frustumPlanes r).
              \<forall>corner \<in> set (chunk_corners ch). vec4_dot plane corner < 0
         then Inr False else Inl TypeError)"
    by (simp add: isChunkInFrustum_def isChunkInFrustum_loop_result plane_rejects_iff)
qed

lemma camera_view_rows:
  "mat4_row (viewMatrix (setCamera rd (8, 1 / 20, 8) (0, pi, 0))) 2 = [0, 1, 0, - (1 / 20)]"
  "mat4_row (viewMatrix (setCamera rd (8, 1 / 20, 8) (0, pi, 0))) 3 = [0, 0, 0, 1]"
  by (simp_all add: setCamera_def mat4_translate_def mat4_rotateX_def mat4_rotateY_def mat4_rotateZ_def
        mat4_identity_def mat4_col_def mat4_row_def vec_add_def vec_scale_def)

text \<open>
  The near plane of the example camera is the normalised \<open>(0, - 20000 / 9999, 0, - 1000 / 9999)\<close>:
  a point with \<open>y \<ge> 0\<close> is on its negative side by at least \<open>1 / 25\<close>, far more than the
  rounding of the stored numbers.
\<close>

lemma camera_near_plane_entries:
  "frustumPlanes camera_renderer ! 4 = vec4_normalize (0, - (20000 / 9999), 0, - (1000 / 9999))"
proof -
  let ?P = "mat4_perspectiveNO (pi / 4) 1 (1 / 10) 1000"
  let ?V = "viewMatrix (setCamera demo_renderer (8, 1 / 20, 8) (0, pi, 0))"
  let ?m = "mat4_multiply ?P ?V"
  have vm: "viewMatrix (setCamera (setPerspective demo_renderer (pi / 4) 1 (1 / 10) 1000) (8, 1 / 20, 8) (0, pi, 0)) = ?V"
    by (simp add: setCamera_def setPerspective_def)
  have pm: "projMatrix (setCamera (setPerspective demo_renderer (pi / 4) 1 (1 / 10) 1000) (8, 1 / 20, 8) (0, pi, 0)) = ?P"
    by (simp add: setCamera_def setPerspective_def)
  have p4: "frustumPlanes camera_renderer ! 4 = frustum_plane ?m 2 1"
    by (simp add: camera_renderer_def updateFrustumPlanes_def Let_def pm vm numeral_eq_Suc)
  have P: "?P ! 2 = 0" "?P ! 6 = 0" "?P ! 10 = - (10001 / 9999)" "?P ! 14 = - (2000 / 9999)"
     "?P ! 3 = 0" "?P ! 7 = 0" "?P ! 11 = - 1" "?P ! 15 = 0"
    by (simp_all add: mat4_perspectiveNO_def Let_def)
  have row: "vec_dot (mat4_row ?m r) [q0, q1, q2, q3] = ?m ! r * q0 + ?m ! (4 + r) * q1
               + ?m ! (8 + r) * q2 + ?m ! (12 + r) * q3" for r q0 q1 q2 q3
    by (simp add: mat4_row_def vec_dot_def)
  have r3: "vec_dot (mat4_row ?m 3) [q0, q1, q2, q3] = - q1 + q3 / 20" for q0 q1 q2 q3
    using multiply_row_dot[of 3 ?P ?V q0 q1 q2 q3] by (simp add: P camera_view_rows vec_dot_def)
  have r2: "vec_dot (mat4_row ?m 2) [q0, q1, q2, q3] =
              - (10001 / 9999) * (q1 - q3 / 20) - (2000 / 9999) * q3" for q0 q1 q2 q3
    using multiply_row_dot[of 2 ?P ?V q0 q1 q2 q3] by (simp add: P camera_view_rows vec_dot_def)
  have e3: "?m ! 3 = 0" "?m ! 7 = - 1" "?m ! 11 = 0" "?m ! 15 = 1 / 20"
    using r3[of 1 0 0 0] r3[of 0 1 0 0] r3[of 0 0 1 0] r3[of 0 0 0 1]
    by (simp_all add: row)
  have e2: "?m ! 2 = 0" "?m ! 6 = - (10001 / 9999)" "?m ! 10 = 0"
      "?m ! 14 = 10001 / 9999 / 20 - 2000 / 9999"
    using r2[of 1 0 0 0] r2[of 0 1 0 0] r2[of 0 0 1 0] r2[of 0 0 0 1]
    by (simp_all add: row)
  show ?thesis
    unfolding p4 frustum_plane_def by (simp add: e3 e2)
qed

lemma camera_near_plane_margin:
  assumes "0 \<le> y"
  shows "vec4_dot (frustumPlanes camera_renderer ! 4) (x, y, z, 1) \<le> - (1 / 25)"
proof -
  let ?b = "- (20000 / 9999) :: real" and ?d = "- (1000 / 9999) :: real"
  let ?len = "0 * 0 + ?b * ?b + 0 * 0 + ?d * ?d"
  have pos: "?len > 0" by simp
  have v: "vec4_dot (frustumPlanes camera_renderer ! 4) (x, y, z, 1) =
             vec4_dot (0, ?b, 0, ?d) (x, y, z, 1) / sqrt ?len"
    unfolding camera_near_plane_entries by (rule vec4_dot_normalize_value[OF pos])
  have d: "vec4_dot (0, ?b, 0, ?d) (x, y, z, 1) \<le> - (1000 / 9999)"
    using assms by (simp add: vec4_dot_def)
  have "?len \<le> (25000 / 9999)\<^sup>2" by (simp add: power2_eq_square)
  then have s: "sqrt ?len \<le> 25000 / 9999" by (intro real_le_lsqrt) simp_all
  have s0: "sqrt ?len > 0" using pos by simp
  have "vec4_dot (0, ?b, 0, ?d) (x, y, z, 1) / sqrt ?len \<le> - (1000 / 9999) / sqrt ?len"
    by (intro divide_right_mono d less_imp_le[OF s0])
  also have "\<dots> \<le> - (1 / 25)"
  proof -
    have "1 / 25 * sqrt ?len \<le> 1000 / 9999" using s by simp
    then have "1 / 25 \<le> 1000 / 9999 / sqrt ?len" using s0 by (simp add: pos_le_divide_eq)
    then show ?thesis by simp
  qed
  finally show ?thesis using v by simp
qed

text \<open>
  The second half of the claim as stated fails: a camera at \<open>(8, 0.05, 8)\<close> looking along the
  negative \<open>y\<close> axis has the whole chunk that contains it behind its near plane, every corner
  on the negative side by at least \<open>1 / 25\<close>, and the test rejects that chunk.
\<close>

theorem camera_chunk_counterexample:
  "chunk_start camera_chunk = (0, 0, 0) \<and> chunk_end camera_chunk = (16, 16, 16) \<and>
   camPos camera_renderer = Some (8, 1 / 20, 8) \<and>
   (0::real) \<le> 8 \<and> (8::real) \<le> 16 \<and> (0::real) \<le> 1 / 20 \<and> (1 / 20 :: real) \<le> 16 \<and>
   list_all (\<lambda>corner. vec4_dot (frustumPlanes camera_renderer ! 4) corner \<le> - (1 / 25))
     (chunk_corners camera_chunk) \<and>
   isChunkInFrustum camera_renderer camera_chunk = Inr False"
proof -
  have len: "length (frustumPlanes camera_renderer) = 6"
    by (simp add: camera_renderer_def updateFrustumPlanes_def Let_def)
  have far: "list_all (\<lambda>corner. vec4_dot (frustumPlanes camera_renderer ! 4) corner \<le> - (1 / 25))
     (chunk_corners camera_chunk)"
    by (simp add: chunk_corners_def camera_chunk_def camera_near_plane_margin)
  then have rej: "plane_rejects (frustumPlanes camera_renderer ! 4) camera_chunk"
    unfolding plane_rejects_def list_all_iff by force
  have mem: "frustumPlanes camera_renderer ! 4 \<in> set (take 6 (frustumPlanes camera_renderer))"
    using len by simp
  have "isChunkInFrustum camera_renderer camera_chunk = Inr False"
    using rej mem unfolding isChunkInFrustum_def isChunkInFrustum_loop_result by auto
  moreover have "camPos camera_renderer = Some (8, 1 / 20, 8)"
    by (simp add: camera_renderer_def updateFrustumPlanes_def Let_def setCamera_def)
  ultimately show ?thesis using far by (simp add: camera_chunk_def)
qed

theorem isChunkInFrustum_corners_witness:
  "6 \<le> length (frustumPlanes camera_renderer) \<and>
   isChunkInFrustum camera_renderer camera_chunk =
     Inr (\<not> (\<exists>plane \<in> set (take 6 (frustumPlanes camera_renderer)).
               \<forall>corner \<in> set (chunk_corners camera_chunk). vec4_dot plane corner < 0)) \<and>
   length (frustumPlanes demo_renderer) < 6 \<and>
   isChunkInFrustum demo_renderer camera_chunk = Inl TypeError \<and>
   length (frustumPlanes one_plane_renderer) < 6 \<and>
   isChunkInFrustum one_plane_renderer camera_chunk = Inr False"
proof -
  have len: "6 \<le> length (frustumPlanes camera_renderer)"
    by (simp add: camera_renderer_def updateFrustumPlanes_def Let_def)
  from isChunkInFrustum_corners[of camera_renderer camera_chunk] len
  have 1: "isChunkInFrustum camera_renderer camera_chunk =
     Inr (\<not> (\<exists>plane \<in> set (take 6 (frustumPlanes camera_renderer)).
               \<forall>corner \<in> set (chunk_corners camera_chunk). vec4_dot plane corner < 0))"
    by blast
  have l2: "length (frustumPlanes demo_renderer) < 6" by (simp add: demo_renderer_def)
  from isChunkInFrustum_corners[of demo_renderer camera_chunk] l2
  have 2: "isChunkInFrustum demo_renderer camera_chunk = Inl TypeError"
    by (simp add: demo_renderer_def)
  have l3: "length (frustumPlanes one_plane_renderer) < 6" by (simp add: one_plane_renderer_def)
  from isChunkInFrustum_corners[of one_plane_renderer camera_chunk] l3
  have 3: "isChunkInFrustum one_plane_renderer camera_chunk = Inr False"
    by (simp add: one_plane_renderer_def chunk_corners_def camera_chunk_def vec4_dot_def)
  from len 1 l2 2 l3 3 show ?thesis by simp
qed

subsection \<open>Chunk streaming\<close>

lemma fold_err_total:
  assumes "\<forall>a \<in> set xs. \<forall>s. \<exists>s'. f a s = Inr s'"
  shows "\<exists>s'. fold_err f xs s = Inr s'"
  using assms
proof (induction xs arbitrary: s)
  case Nil
  then show ?case by simp
next
  case (Cons a xs)
  then obtain s1 where "f a s = Inr s1" by force
  with Cons show ?case by simp
qed

lemma world_meshable_cell:
  assumes "world_meshable w" "isInBounds w x y z"
  shows "\<exists>b. grid_get_opt (blocks w) x y z = Some b \<and> textured b"
proof -
  from assms have "(x, y, z) \<in> set (cells (sx w) (sy w) (sz w))"
    by (simp add: set_cells isInBounds_def)
  with assms(1) show ?thesis
    unfolding world_meshable_def list_all_iff by (force split: option.splits)
qed

lemma buildChunk_cell_ok:
  assumes "world_meshable w" "isInBounds w x y z"
  shows "\<exists>vs'. buildChunk_cell w (x, y, z) vs = Inr vs'"
proof -
  from world_meshable_cell[OF assms] obtain b where
    b: "grid_get_opt (blocks w) x y z = Some b" "textured b" by blast
  from assms(1) have d: "world_dense w" by (simp add: world_meshable_def)
  show ?thesis
  proof (cases "bid b = bid AIR")
    case True
    then show ?thesis by (simp add: buildChunk_cell_def b)
  next
    case False
    from pushVertices_dense[OF d assms(2) b(1) False b(2), of vs "lightmap w"]
    show ?thesis using False by (auto simp: buildChunk_cell_def b)
  qed
qed

lemma set_cells_between:
  "(x, y, z) \<in> set (cells_between (x0, y0, z0) (x1, y1, z1)) \<longleftrightarrow>
     x0 \<le> x \<and> x < x1 \<and> y0 \<le> y \<and> y < y1 \<and> z0 \<le> z \<and> z < z1"
  by (auto simp: cells_between_def)

lemma buildChunk_ok:
  assumes "world_meshable w" "\<not> context_lost g"
    "chunk_start c = (x0, y0, z0)" "chunk_end c = (x1, y1, z1)"
    "0 \<le> x0" "0 \<le> y0" "0 \<le> z0" "x1 \<le> sx w" "y1 \<le> sy w" "z1 \<le> sz w" "buffer c = None"
  shows "\<exists>g' c'. buildChunk g w c = Inr (g', c') \<and> \<not> dirty c' \<and>
           chunk_start c' = chunk_start c \<and> chunk_end c' = chunk_end c \<and>
           \<not> context_lost g' \<and> next_handle g \<le> next_handle g' \<and>
           set (live_buffers g') \<subseteq> set (live_buffers g) \<union> {next_handle g ..< next_handle g'} \<and>
           (\<forall>b. buffer c' = Some b \<longrightarrow> handle b < next_handle g')"
proof -
  have "\<forall>a \<in> set (cells_between (chunk_start c) (chunk_end c)). \<forall>s. \<exists>s'. buildChunk_cell w a s = Inr s'"
  proof (intro ballI allI)
    fix a :: "int \<times> int \<times> int" and s
    assume a: "a \<in> set (cells_between (chunk_start c) (chunk_end c))"
    obtain x y z where xyz: "a = (x, y, z)" by (cases a) auto
    from a assms(3-10) have "isInBounds w x y z"
      by (auto simp: xyz set_cells_between isInBounds_def)
    from buildChunk_cell_ok[OF assms(1) this] show "\<exists>s'. buildChunk_cell w a s = Inr s'"
      by (simp add: xyz)
  qed
  from fold_err_total[OF this] obtain vs where
    vs: "fold_err (buildChunk_cell w) (cells_between (chunk_start c) (chunk_end c)) [] = Inr vs"
    by blast
  show ?thesis
    using assms(2,11)
    by (cases "vs = []") (auto simp: buildChunk_def vs createBuffer_def)
qed


lemma map_of_map_set: "map_of (map_set k v m) = (map_of m)(k \<mapsto> v)"
  by (induction m) (auto simp: fun_eq_iff)

lemma keys_map_set: "fst ` set (map_set k v m) = insert k (fst ` set m)"
  by (induction m) auto

lemma createChunk_ok:
  assumes "world_meshable w" "\<not> context_lost (gl r)" "isInBounds w x y z"
  shows "\<exists>g' c'. createChunk r w x y z =
             Inr (r \<lparr> chunkMap := map_set (getChunkKey r x y z) c' (chunkMap r), gl := g' \<rparr>) \<and>
           \<not> dirty c' \<and> chunk_start c' = (x, y, z) \<and>
           \<not> context_lost g' \<and> next_handle (gl r) \<le> next_handle g' \<and>
           set (live_buffers g') \<subseteq> set (live_buffers (gl r)) \<union> {next_handle (gl r) ..< next_handle g'} \<and>
           (\<forall>b. buffer c' = Some b \<longrightarrow> handle b < next_handle g')"
proof -
  let ?c = "\<lparr> chunk_start = (x, y, z),
                     chunk_end = (min (x + chunkSize r) (sx w), min (y + chunkSize r) (sy w),
                                  min (z + chunkSize r) (sz w)),
                     dirty = True, buffer = None \<rparr>"
  from assms(3) have b: "0 \<le> x" "0 \<le> y" "0 \<le> z" by (auto simp: isInBounds_def)
  from buildChunk_ok[OF assms(1,2), of ?c x y z _ _ _] b
  obtain g' c' where bc: "buildChunk (gl r) w ?c = Inr (g', c')" and p: "\<not> dirty c'"
     "chunk_start c' = chunk_start ?c" "\<not> context_lost g'" "next_handle (gl r) \<le> next_handle g'"
     "set (live_buffers g') \<subseteq> set (live_buffers (gl r)) \<union> {next_handle (gl r) ..< next_handle g'}"
     "\<forall>b. buffer c' = Some b \<longrightarrow> handle b < next_handle g'"
    by force
  have "createChunk r w x y z = Inr (r \<lparr> chunkMap := map_set (getChunkKey r x y z) c' (chunkMap r), gl := g' \<rparr>)"
    by (simp add: createChunk_def Let_def bc)
  with p show ?thesis by auto
qed


lemma entry_key_cong: "chunkSize r' = chunkSize r \<Longrightarrow> entry_key r' = entry_key r"
  by (simp add: entry_key_def getChunkKey_def fun_eq_iff)

lemma process_loop:
  assumes "world_meshable w" "\<not> context_lost (gl r)"
    "\<forall>e \<in> set q. isInBounds w (qx e) (qy e) (qz e)"
  shows "\<exists>m' g' n. n = min (nat (maxC - processed)) (length q) \<and>
      processChunkQueue_loop w maxC processed q r =
        Inr (r \<lparr> chunkMap := m', gl := g', chunkLoadQueue := drop n q \<rparr>) \<and>
      fst ` set m' = fst ` set (chunkMap r) \<union> entry_key r ` set (take n q) \<and>
      (\<forall>k. k \<notin> entry_key r ` set (take n q) \<longrightarrow> map_of m' k = map_of (chunkMap r) k) \<and>
      (\<forall>e \<in> set (take n q). \<exists>c. map_of m' (entry_key r e) = Some c \<and> \<not> dirty c) \<and>
      \<not> context_lost g' \<and> next_handle (gl r) \<le> next_handle g' \<and>
      set (live_buffers g') \<subseteq> set (live_buffers (gl r)) \<union> {next_handle (gl r) ..< next_handle g'}"
  using assms
proof (induction q arbitrary: r processed)
  case Nil
  have "r \<lparr> chunkLoadQueue := [] \<rparr> = r \<lparr> chunkMap := chunkMap r, gl := gl r, chunkLoadQueue := [] \<rparr>"
    by simp
  with Nil show ?case
    by (intro exI[of _ "chunkMap r"] exI[of _ "gl r"] exI[of _ 0]) simp
next
  case (Cons c q)
  show ?case
  proof (cases "processed < maxC")
    case False
    have "r \<lparr> chunkLoadQueue := c # q \<rparr> = r \<lparr> chunkMap := chunkMap r, gl := gl r, chunkLoadQueue := c # q \<rparr>"
      by simp
    with False Cons.prems show ?thesis
      by (intro exI[of _ "chunkMap r"] exI[of _ "gl r"] exI[of _ 0]) simp
  next
    case True
    from Cons.prems have ib: "isInBounds w (qx c) (qy c) (qz c)" by simp
    from createChunk_ok[OF Cons.prems(1,2) ib] obtain g1 c1 where
      cc: "createChunk r w (qx c) (qy c) (qz c) =
             Inr (r \<lparr> chunkMap := map_set (entry_key r c) c1 (chunkMap r), gl := g1 \<rparr>)"
      and c1: "\<not> dirty c1"
      and g1: "\<not> context_lost g1" "next_handle (gl r) \<le> next_handle g1"
        "set (live_buffers g1) \<subseteq> set (live_buffers (gl r)) \<union> {next_handle (gl r) ..< next_handle g1}"
      unfolding entry_key_def by blast
    let ?r1 = "r \<lparr> chunkMap := map_set (entry_key r c) c1 (chunkMap r), gl := g1 \<rparr>"
    have k1: "entry_key ?r1 = entry_key r" by (rule entry_key_cong) simp
    from Cons.prems have q: "\<forall>e \<in> set q. isInBounds w (qx e) (qy e) (qz e)" by simp
    have cl: "\<not> context_lost (gl ?r1)" using g1 by simp
    from Cons.IH[OF Cons.prems(1) cl q, of "processed + 1"] obtain m' g' n where
      n: "n = min (nat (maxC - (processed + 1))) (length q)"
      and run: "processChunkQueue_loop w maxC (processed + 1) q ?r1 =
                 Inr (?r1 \<lparr> chunkMap := m', gl := g', chunkLoadQueue := drop n q \<rparr>)"
      and keys: "fst ` set m' = fst ` set (chunkMap ?r1) \<union> entry_key r ` set (take n q)"
      and old: "\<forall>k. k \<notin> entry_key r ` set (take n q) \<longrightarrow> map_of m' k = map_of (chunkMap ?r1) k"
      and new: "\<forall>e \<in> set (take n q). \<exists>c. map_of m' (entry_key r e) = Some c \<and> \<not> dirty c"
      and g': "\<not> context_lost g'" "next_handle (gl ?r1) \<le> next_handle g'"
        "set (live_buffers g') \<subseteq> set (live_buffers (gl ?r1)) \<union> {next_handle (gl ?r1) ..< next_handle g'}"
      unfolding k1 by blast
    have sn: "Suc n = min (nat (maxC - processed)) (length (c # q))"
      using True n by (auto simp: min_def)
    have 1: "processChunkQueue_loop w maxC processed (c # q) r =
               Inr (r \<lparr> chunkMap := m', gl := g', chunkLoadQueue := drop (Suc n) (c # q) \<rparr>)"
      using True cc run by simp
    have 2: "fst ` set m' = fst ` set (chunkMap r) \<union> entry_key r ` set (take (Suc n) (c # q))"
      using keys by (auto simp: keys_map_set)
    have 3: "\<forall>k. k \<notin> entry_key r ` set (take (Suc n) (c # q)) \<longrightarrow> map_of m' k = map_of (chunkMap r) k"
      using old by (auto simp: map_of_map_set)
    have 4: "\<forall>e \<in> set (take (Suc n) (c # q)). \<exists>c. map_of m' (entry_key r e) = Some c \<and> \<not> dirty c"
    proof
      fix e assume e: "e \<in> set (take (Suc n) (c # q))"
      show "\<exists>c. map_of m' (entry_key r e) = Some c \<and> \<not> dirty c"
      proof (cases "entry_key r e \<in> entry_key r ` set (take n q)")
        case True
        then obtain e' where "e' \<in> set (take n q)" "entry_key r e = entry_key r e'" by blast
        with new show ?thesis by force
      next
        case False
        with e have "e = c" by auto
        with False old[rule_format, of "entry_key r c"] have "map_of m' (entry_key r e) = Some c1"
          by (simp add: map_of_map_set)
        with c1 show ?thesis by blast
      qed
    qed
    have 5: "\<not> context_lost g'" "next_handle (gl r) \<le> next_handle g'"
      "set (live_buffers g') \<subseteq> set (live_buffers (gl r)) \<union> {next_handle (gl r) ..< next_handle g'}"
      using g' g1 by (simp, simp, fastforce)
    from sn 1 2 3 4 5 show ?thesis
      by (intro exI[of _ m'] exI[of _ g'] exI[of _ "Suc n"]) blast
  qed
qed


lemma set_map_filter_iff: "y \<in> set (List.map_filter f xs) \<longleftrightarrow> (\<exists>x \<in> set xs. f x = Some y)"
  by (induction xs) (auto simp: List.map_filter_simps split: option.splits)

lemma abs_le_chunk_distance:
  "\<bar>of_int (x - px)\<bar> \<le> chunk_distance (x, y, z) (px, py, pz)"
  "\<bar>of_int (y - py)\<bar> \<le> chunk_distance (x, y, z) (px, py, pz)"
  "\<bar>of_int (z - pz)\<bar> \<le> chunk_distance (x, y, z) (px, py, pz)"
proof -
  have s: "\<And>a b c :: real. \<bar>a\<bar> \<le> sqrt (a * a + b * b + c * c)"
  proof -
    fix a b c :: real
    have "a * a \<le> a * a + b * b + c * c" by simp
    then have "sqrt (a * a) \<le> sqrt (a * a + b * b + c * c)" by (rule real_sqrt_le_mono)
    then show "\<bar>a\<bar> \<le> sqrt (a * a + b * b + c * c)" by simp
  qed
  show "\<bar>of_int (x - px)\<bar> \<le> chunk_distance (x, y, z) (px, py, pz)"
    using s[of "of_int (x - px)" "of_int (y - py)" "of_int (z - pz)"]
    by (simp add: chunk_distance_def)
  show "\<bar>of_int (y - py)\<bar> \<le> chunk_distance (x, y, z) (px, py, pz)"
    using s[of "of_int (y - py)" "of_int (x - px)" "of_int (z - pz)"]
    by (simp add: chunk_distance_def add.commute)
  show "\<bar>of_int (z - pz)\<bar> \<le> chunk_distance (x, y, z) (px, py, pz)"
    using s[of "of_int (z - pz)" "of_int (x - px)" "of_int (y - py)"]
    by (simp add: chunk_distance_def add.commute add.left_commute)
qed

lemma load_candidates_mem:
  assumes "chunk_distance (x, y, z) (px, py, pz) \<le> of_int (loadDistance r)"
  shows "(x, y, z) \<in> set (load_candidates r (px, py, pz))"
proof -
  have "\<bar>of_int (x - px) :: real\<bar> \<le> of_int (loadDistance r)"
       "\<bar>of_int (y - py) :: real\<bar> \<le> of_int (loadDistance r)"
       "\<bar>of_int (z - pz) :: real\<bar> \<le> of_int (loadDistance r)"
    using abs_le_chunk_distance(1)[of x px y z py pz] abs_le_chunk_distance(2)[of y py x z px pz]
      abs_le_chunk_distance(3)[of z pz x y px py] assms by linarith+
  then have "\<bar>x - px\<bar> \<le> loadDistance r" "\<bar>y - py\<bar> \<le> loadDistance r" "\<bar>z - pz\<bar> \<le> loadDistance r"
    by linarith+
  then show ?thesis by (auto simp: load_candidates_def)
qed

lemma key_of_origin:
  assumes "0 < chunkSize r"
  shows "getChunkKey r (x * chunkSize r) (y * chunkSize r) (z * chunkSize r) = (x, y, z)"
  using assms by (simp add: getChunkKey_def)

lemma load_queue_complete:
  assumes "0 < chunkSize r"
    "isInBounds w (x * chunkSize r) (y * chunkSize r) (z * chunkSize r)"
    "map_of (chunkMap r) (x, y, z) = None"
    "chunk_distance (x, y, z) p \<le> of_int (loadDistance r)"
  shows "\<exists>e \<in> set (load_queue r w p view).
           qx e = x * chunkSize r \<and> qy e = y * chunkSize r \<and> qz e = z * chunkSize r"
proof -
  obtain px py pz where p: "p = (px, py, pz)" by (cases p) auto
  obtain vx vy vz where v: "view = (vx, vy, vz)" by (cases view) auto
  have m: "(x, y, z) \<in> set (load_candidates r p)"
    using load_candidates_mem assms(4) unfolding p by blast
  have "\<exists>e. load_entry r w p view (x, y, z) = Some e \<and>
           qx e = x * chunkSize r \<and> qy e = y * chunkSize r \<and> qz e = z * chunkSize r"
    using assms by (simp add: load_entry_def p v Let_def key_of_origin)
  then obtain e where e: "load_entry r w p view (x, y, z) = Some e"
     "qx e = x * chunkSize r \<and> qy e = y * chunkSize r \<and> qz e = z * chunkSize r" by blast
  from m e(1) have "e \<in> set (load_queue r w p view)"
    unfolding load_queue_def by (simp add: set_map_filter_iff) blast
  with e(2) show ?thesis by blast
qed

lemma load_queue_sound:
  assumes "0 < chunkSize r" "e \<in> set (load_queue r w p view)"
  shows "isInBounds w (qx e) (qy e) (qz e) \<and> map_of (chunkMap r) (entry_key r e) = None \<and>
         chunk_distance (entry_key r e) p \<le> of_int (loadDistance r)"
proof -
  obtain px py pz where p: "p = (px, py, pz)" by (cases p) auto
  obtain vx vy vz where v: "view = (vx, vy, vz)" by (cases view) auto
  from assms(2) obtain c where c: "load_entry r w p view c = Some e"
    unfolding load_queue_def by (auto simp: set_map_filter_iff)
  obtain x y z where xyz: "c = (x, y, z)" by (cases c) auto
  from c show ?thesis
    using key_of_origin[OF assms(1)]
    by (auto simp: load_entry_def p v xyz Let_def entry_key_def split: if_splits option.splits)
qed

lemma sorted_load_queue: "sorted (map priority (load_queue r w p view))"
  by (simp add: load_queue_def)


lemma unload_step_props:
  "context_lost (unload_step r p g kc) = context_lost g"
  "next_handle (unload_step r p g kc) = next_handle g"
  "set (live_buffers (unload_step r p g kc)) \<subseteq> set (live_buffers g)"
  by (cases kc; auto simp: unload_step_def deleteBuffer_def split: option.splits)+

lemma unload_fold_props:
  "context_lost (foldl (unload_step r p) g m) = context_lost g \<and>
   next_handle (foldl (unload_step r p) g m) = next_handle g \<and>
   set (live_buffers (foldl (unload_step r p) g m)) \<subseteq> set (live_buffers g)"
proof (induction m arbitrary: g)
  case Nil
  then show ?case by simp
next
  case (Cons kc m)
  from Cons[of "unload_step r p g kc"] unload_step_props[of r p g kc]
  show ?case by auto
qed

lemma unload_fold_removed:
  assumes "(k, c) \<in> set m" "chunk_distance k p > of_int (unloadDistance r)" "buffer c = Some b"
  shows "handle b \<notin> set (live_buffers (foldl (unload_step r p) g m))"
  using assms(1)
proof (induction m arbitrary: g)
  case Nil
  then show ?case by simp
next
  case (Cons kc m)
  show ?case
  proof (cases "kc = (k, c)")
    case True
    have "handle b \<notin> set (live_buffers (unload_step r p g kc))"
      using assms(2,3) by (simp add: True unload_step_def deleteBuffer_def)
    with unload_fold_props[of r p "unload_step r p g kc" m] show ?thesis by auto
  next
    case False
    with Cons.prems have "(k, c) \<in> set m" by simp
    from Cons.IH[OF this] show ?thesis by simp
  qed
qed

lemma unload_gl_fold: "unload_gl r p = foldl (unload_step r p) (gl r) (chunkMap r)"
  by (simp add: unload_gl_def)

lemma unload_map_keys:
  "(k, c) \<in> set (unload_map r p) \<longleftrightarrow>
     (k, c) \<in> set (chunkMap r) \<and> chunk_distance k p \<le> of_int (unloadDistance r)"
  by (auto simp: unload_map_def)


text \<open>
  C9. Take a world whose in-bounds cells all hold textured block objects, and a renderer
  with a camera position, a live WebGL context, a positive chunk size, \<open>loadDistance = 3\<close>
  and \<open>unloadDistance = 5\<close>, whose chunk buffers were handed out by \<open>createBuffer\<close>. One
  call of \<open>updateChunksAroundPlayer\<close>, from any camera position (a chunk origin included),
  runs to its end, and: every in-bounds chunk coordinate that is not loaded and lies at
  Euclidean chunk distance at most 3 is in the load queue \<open>Q\<close> the pass builds; no loaded
  chunk at distance above 5 survives (its entry is gone from \<open>chunkMap\<close> and its buffer is
  no longer live), and every chunk left is within distance 5; and exactly the first \<open>n\<close>
  entries of \<open>Q\<close>, with \<open>n\<close> at most \<open>maxChunksPerFrame\<close>, are materialised (in \<open>chunkMap\<close>,
  built, not dirty), the rest of \<open>Q\<close> staying queued.
\<close>

theorem streaming_pass:
  assumes "world_meshable w" "\<not> context_lost (gl r)" "camPos r = Some cam" "0 < chunkSize r"
    "loadDistance r = 3" "unloadDistance r = 5" "buffers_allocated r"
    "p = player_chunk r playerPos" "Q = load_queue r w p (viewVector cam)"
  shows "\<exists>r' n. updateChunksAroundPlayer r w playerPos = Inr r' \<and>
      (\<forall>x y z. isInBounds w (x * chunkSize r) (y * chunkSize r) (z * chunkSize r) \<and>
                map_of (chunkMap r) (x, y, z) = None \<and> chunk_distance (x, y, z) p \<le> 3 \<longrightarrow>
                (\<exists>e \<in> set Q. qx e = x * chunkSize r \<and> qy e = y * chunkSize r \<and> qz e = z * chunkSize r)) \<and>
      (\<forall>(k, c) \<in> set (chunkMap r'). chunk_distance k p \<le> 5) \<and>
      (\<forall>(k, c) \<in> set (chunkMap r). chunk_distance k p > 5 \<longrightarrow>
          k \<notin> fst ` set (chunkMap r') \<and>
          (\<forall>b. buffer c = Some b \<longrightarrow> handle b \<notin> set (live_buffers (gl r')))) \<and>
      n \<le> nat (maxChunksPerFrame r) \<and> n \<le> length Q \<and> chunkLoadQueue r' = drop n Q \<and>
      fst ` set (chunkMap r') = fst ` set (unload_map r p) \<union> entry_key r ` set (take n Q) \<and>
      (\<forall>e \<in> set (take n Q). \<exists>c. map_of (chunkMap r') (entry_key r e) = Some c \<and> \<not> dirty c)"
proof -
  let ?r0 = "r \<lparr> chunkLoadQueue := Q, chunkMap := unload_map r p, gl := unload_gl r p \<rparr>"
  have run0: "updateChunksAroundPlayer r w playerPos =
                processChunkQueue_loop w (maxChunksPerFrame r) 0 Q ?r0"
    by (simp add: updateChunksAroundPlayer_def assms(3) Let_def assms(8)[symmetric] assms(9)[symmetric]
          processChunkQueue_def)
  have gl0: "\<not> context_lost (gl ?r0)" "next_handle (gl ?r0) = next_handle (gl r)"
    "set (live_buffers (gl ?r0)) \<subseteq> set (live_buffers (gl r))"
    using unload_fold_props[of r p "gl r" "chunkMap r"] assms(2) by (simp_all add: unload_gl_fold)
  have qs: "\<forall>e \<in> set Q. isInBounds w (qx e) (qy e) (qz e) \<and>
              chunk_distance (entry_key r e) p \<le> of_int (loadDistance r)"
    using load_queue_sound[OF assms(4)] unfolding assms(9) by blast
  then have qb: "\<forall>e \<in> set Q. isInBounds w (qx e) (qy e) (qz e)" by blast
  have k0: "entry_key ?r0 = entry_key r" by (rule entry_key_cong) simp
  from process_loop[OF assms(1) gl0(1) qb, of "maxChunksPerFrame r" 0]
  obtain m' g' n where
    n: "n = min (nat (maxChunksPerFrame r)) (length Q)"
    and run: "processChunkQueue_loop w (maxChunksPerFrame r) 0 Q ?r0 =
                Inr (?r0 \<lparr> chunkMap := m', gl := g', chunkLoadQueue := drop n Q \<rparr>)"
    and keys: "fst ` set m' = fst ` set (unload_map r p) \<union> entry_key r ` set (take n Q)"
    and old: "\<forall>k. k \<notin> entry_key r ` set (take n Q) \<longrightarrow> map_of m' k = map_of (unload_map r p) k"
    and new: "\<forall>e \<in> set (take n Q). \<exists>c. map_of m' (entry_key r e) = Some c \<and> \<not> dirty c"
    and g': "next_handle (gl ?r0) \<le> next_handle g'"
      "set (live_buffers g') \<subseteq> set (live_buffers (gl ?r0)) \<union> {next_handle (gl ?r0) ..< next_handle g'}"
    unfolding k0 by auto
  let ?r' = "?r0 \<lparr> chunkMap := m', gl := g', chunkLoadQueue := drop n Q \<rparr>"
  have 1: "updateChunksAroundPlayer r w playerPos = Inr ?r'" using run0 run by simp
  have 2: "\<forall>x y z. isInBounds w (x * chunkSize r) (y * chunkSize r) (z * chunkSize r) \<and>
                map_of (chunkMap r) (x, y, z) = None \<and> chunk_distance (x, y, z) p \<le> 3 \<longrightarrow>
                (\<exists>e \<in> set Q. qx e = x * chunkSize r \<and> qy e = y * chunkSize r \<and> qz e = z * chunkSize r)"
    using load_queue_complete[OF assms(4), of w _ _ _ p "viewVector cam"]
    unfolding assms(9) by (simp add: assms(5))
  have far_keys: "\<And>k. k \<in> fst ` set m' \<Longrightarrow> chunk_distance k p \<le> 5"
  proof -
    fix k assume "k \<in> fst ` set m'"
    with keys consider "k \<in> fst ` set (unload_map r p)" | "k \<in> entry_key r ` set (take n Q)" by blast
    then show "chunk_distance k p \<le> 5"
    proof cases
      case 1
      then show ?thesis by (auto simp: unload_map_keys assms(6))
    next
      case 2
      then obtain e where "e \<in> set Q" "k = entry_key r e" by (auto dest: in_set_takeD)
      with qs have "chunk_distance k p \<le> 3" by (simp add: assms(5))
      then show ?thesis by simp
    qed
  qed
  have 3: "\<forall>(k, c) \<in> set (chunkMap ?r'). chunk_distance k p \<le> 5"
    using far_keys by force
  have 4: "\<forall>(k, c) \<in> set (chunkMap r). chunk_distance k p > 5 \<longrightarrow>
          k \<notin> fst ` set (chunkMap ?r') \<and>
          (\<forall>b. buffer c = Some b \<longrightarrow> handle b \<notin> set (live_buffers (gl ?r')))"
  proof (intro ballI, clarify)
    fix k c assume kc: "(k, c) \<in> set (chunkMap r)" and far: "chunk_distance k p > 5"
    have a: "k \<notin> fst ` set (chunkMap ?r')" using far_keys[of k] far by auto
    have b: "\<forall>b. buffer c = Some b \<longrightarrow> handle b \<notin> set (live_buffers (gl ?r'))"
    proof (intro allI impI)
      fix b assume b: "buffer c = Some b"
      from kc b assms(7) have lt: "handle b < next_handle (gl r)"
        unfolding buffers_allocated_def list_all_iff by force
      have "handle b \<notin> set (live_buffers (gl ?r0))"
        using unload_fold_removed[OF kc _ b, where p = p and r = r and g = "gl r"] far
        by (simp add: unload_gl_fold assms(6))
      with g'(2) lt gl0(2) show "handle b \<notin> set (live_buffers (gl ?r'))" by auto
    qed
    from a b show "k \<notin> fst ` set (chunkMap ?r') \<and>
          (\<forall>b. buffer c = Some b \<longrightarrow> handle b \<notin> set (live_buffers (gl ?r')))" by blast
  qed
  have 5: "n \<le> nat (maxChunksPerFrame r)" "n \<le> length Q" using n by simp_all
  have 6: "chunkLoadQueue ?r' = drop n Q" by simp
  have 7: "fst ` set (chunkMap ?r') = fst ` set (unload_map r p) \<union> entry_key r ` set (take n Q)"
    using keys by simp
  have 8: "\<forall>e \<in> set (take n Q). \<exists>c. map_of (chunkMap ?r') (entry_key r e) = Some c \<and> \<not> dirty c"
    using new by simp
  from 1 2 3 4 5 6 7 8 show ?thesis
    by (intro exI[of _ ?r'] exI[of _ n]) (intro conjI, assumption+)
qed


lemma single_dirt_meshable: "world_meshable single_dirt_world"
proof -
  have d: "sx single_dirt_world = 10" "sy single_dirt_world = 10" "sz single_dirt_world = 10"
    by (simp_all add: single_dirt_world_def)
  have t: "textured AIR" "textured DIRT" by (simp_all add: AIR_def DIRT_def textured_block_type)
  show ?thesis
    unfolding world_meshable_def list_all_iff d
    using single_dirt_dense single_dirt_cell t by (auto simp: set_cells)
qed



theorem streaming_pass_witness:
  "world_meshable single_dirt_world \<and> \<not> context_lost (gl stream_renderer) \<and>
   camPos stream_renderer = Some (0, 0, 0) \<and> 0 < chunkSize stream_renderer \<and>
   loadDistance stream_renderer = 3 \<and> unloadDistance stream_renderer = 5 \<and>
   buffers_allocated stream_renderer \<and> player_chunk stream_renderer (0, 0, 0) = (0, 0, 0) \<and>
   (\<exists>r' n. updateChunksAroundPlayer stream_renderer single_dirt_world (0, 0, 0) = Inr r' \<and>
      (\<exists>e \<in> set (load_queue stream_renderer single_dirt_world (0, 0, 0) (viewVector (0, 0, 0))).
          qx e = 0 \<and> qy e = 0 \<and> qz e = 0) \<and>
      (9, 0, 0) \<notin> fst ` set (chunkMap r') \<and> 0 \<notin> set (live_buffers (gl r')) \<and> n \<le> 2 \<and>
      chunkLoadQueue r' = drop n (load_queue stream_renderer single_dirt_world (0, 0, 0) (viewVector (0, 0, 0))))"
proof -
  let ?r = stream_renderer and ?w = single_dirt_world
  let ?Q = "load_queue ?r ?w (0, 0, 0) (viewVector (0, 0, 0))"
  have h: "\<not> context_lost (gl ?r)" "camPos ?r = Some (0, 0, 0)" "0 < chunkSize ?r"
    "loadDistance ?r = 3" "unloadDistance ?r = 5" "buffers_allocated ?r"
    by (simp_all add: stream_renderer_def buffers_allocated_def)
  have p: "(0, 0, 0) = player_chunk ?r (0, 0, 0)"
    by (simp add: player_chunk_def)
  note sp = streaming_pass[OF single_dirt_meshable h p refl]
  then obtain r' n where
    run: "updateChunksAroundPlayer ?r ?w (0, 0, 0) = Inr r'"
    and enq: "\<forall>x y z. isInBounds ?w (x * chunkSize ?r) (y * chunkSize ?r) (z * chunkSize ?r) \<and>
                map_of (chunkMap ?r) (x, y, z) = None \<and> chunk_distance (x, y, z) (0, 0, 0) \<le> 3 \<longrightarrow>
                (\<exists>e \<in> set ?Q. qx e = x * chunkSize ?r \<and> qy e = y * chunkSize ?r \<and> qz e = z * chunkSize ?r)"
    and ev: "\<forall>(k, c) \<in> set (chunkMap ?r). chunk_distance k (0, 0, 0) > 5 \<longrightarrow>
          k \<notin> fst ` set (chunkMap r') \<and>
          (\<forall>b. buffer c = Some b \<longrightarrow> handle b \<notin> set (live_buffers (gl r')))"
    and n: "n \<le> nat (maxChunksPerFrame ?r)" "chunkLoadQueue r' = drop n ?Q"
    by (elim exE conjE) blast
  have "isInBounds ?w (0 * chunkSize ?r) (0 * chunkSize ?r) (0 * chunkSize ?r) \<and>
                map_of (chunkMap ?r) (0, 0, 0) = None \<and> chunk_distance (0, 0, 0) (0, 0, 0) \<le> 3"
    by (simp add: isInBounds_def single_dirt_world_def stream_renderer_def chunk_distance_def)
  with enq have 1: "\<exists>e \<in> set ?Q. qx e = 0 \<and> qy e = 0 \<and> qz e = 0" by fastforce
  have "(5::real)\<^sup>2 < 81" by simp
  then have "5 < sqrt (81::real)" by (rule real_less_rsqrt)
  then have far: "chunk_distance (9, 0, 0) (0, 0, 0) > 5"
    by (simp add: chunk_distance_def)
  have mem: "((9, 0, 0), snd (hd (chunkMap ?r))) \<in> set (chunkMap ?r)"
    by (simp add: stream_renderer_def)
  have buf: "buffer (snd (hd (chunkMap ?r))) = Some \<lparr> handle = 0, vertices = 6, vertex_data = replicate 54 0 \<rparr>"
    by (simp add: stream_renderer_def)
  from ev mem far have 2: "(9, 0, 0) \<notin> fst ` set (chunkMap r')"
    "\<forall>b. buffer (snd (hd (chunkMap ?r))) = Some b \<longrightarrow> handle b \<notin> set (live_buffers (gl r'))"
    by blast+
  from 2(2) buf have b0: "0 \<notin> set (live_buffers (gl r'))" by simp
  from n have 3: "n \<le> 2" by (simp add: stream_renderer_def)
  from run 1 2(1) b0 3 n(2) have "\<exists>r' n. updateChunksAroundPlayer ?r ?w (0, 0, 0) = Inr r' \<and>
      (\<exists>e \<in> set ?Q. qx e = 0 \<and> qy e = 0 \<and> qz e = 0) \<and>
      (9, 0, 0) \<notin> fst ` set (chunkMap r') \<and> 0 \<notin> set (live_buffers (gl r')) \<and> n \<le> 2 \<and>
      chunkLoadQueue r' = drop n ?Q" by blast
  with h p single_dirt_meshable show ?thesis by simp
qed

subsection \<open>Streaming priority\<close>

lemma createChunk_viewMatrix:
  "createChunk (r \<lparr> viewMatrix := v \<rparr>) w x y z =
     map_sum id (\<lambda>r'. r' \<lparr> viewMatrix := v \<rparr>) (createChunk r w x y z)"
  by (simp add: createChunk_def getChunkKey_def Let_def split: sum.splits prod.splits)

lemma processChunkQueue_loop_viewMatrix:
  "processChunkQueue_loop w m n q (r \<lparr> viewMatrix := v \<rparr>) =
     map_sum id (\<lambda>r'. r' \<lparr> viewMatrix := v \<rparr>) (processChunkQueue_loop w m n q r)"
proof (induction q arbitrary: r n)
  case Nil
  then show ?case by simp
next
  case (Cons c q)
  show ?case
  proof (cases "createChunk r w (qx c) (qy c) (qz c)")
    case (Inl e)
    then show ?thesis by (simp add: createChunk_viewMatrix)
  next
    case (Inr r1)
    then show ?thesis using Cons[of "n + 1" r1] by (simp add: createChunk_viewMatrix)
  qed
qed

lemma updateChunksAroundPlayer_viewMatrix:
  "updateChunksAroundPlayer (r \<lparr> viewMatrix := v \<rparr>) w pp =
     map_sum id (\<lambda>r'. r' \<lparr> viewMatrix := v \<rparr>) (updateChunksAroundPlayer r w pp)"
proof (cases "camPos r")
  case None
  then show ?thesis by (simp add: updateChunksAroundPlayer_def)
next
  case (Some cam)
  let ?p = "player_chunk r pp"
  have 1: "player_chunk (r \<lparr> viewMatrix := v \<rparr>) pp = ?p" by (simp add: player_chunk_def)
  have le: "load_entry (r \<lparr> viewMatrix := v \<rparr>) w ?p (viewVector cam) = load_entry r w ?p (viewVector cam)"
  proof (rule ext)
    fix c
    show "load_entry (r \<lparr> viewMatrix := v \<rparr>) w ?p (viewVector cam) c = load_entry r w ?p (viewVector cam) c"
      by (cases c; cases "player_chunk r pp"; cases "viewVector cam")
         (simp add: load_entry_def getChunkKey_def Let_def cong: option.case_cong if_cong)
  qed
  have 2: "load_queue (r \<lparr> viewMatrix := v \<rparr>) w ?p (viewVector cam) = load_queue r w ?p (viewVector cam)"
    by (simp add: load_queue_def load_candidates_def le)
  have 3: "unload_map (r \<lparr> viewMatrix := v \<rparr>) ?p = unload_map r ?p"
    by (simp add: unload_map_def)
  have 4: "unload_gl (r \<lparr> viewMatrix := v \<rparr>) ?p = unload_gl r ?p"
    by (simp add: unload_gl_def unload_step_def)
  let ?Q = "load_queue r w ?p (viewVector cam)"
  let ?r0 = "r \<lparr> chunkLoadQueue := ?Q, chunkMap := unload_map r ?p, gl := unload_gl r ?p \<rparr>"
  have eq: "(r \<lparr> viewMatrix := v \<rparr>) \<lparr> chunkLoadQueue := ?Q, chunkMap := unload_map r ?p, gl := unload_gl r ?p \<rparr>
              = ?r0 \<lparr> viewMatrix := v \<rparr>"
    by simp
  have "updateChunksAroundPlayer (r \<lparr> viewMatrix := v \<rparr>) w pp =
          processChunkQueue_loop w (maxChunksPerFrame r) 0 ?Q (?r0 \<lparr> viewMatrix := v \<rparr>)"
    unfolding eq[symmetric]
    by (simp add: updateChunksAroundPlayer_def Some Let_def 1 2 3 4 processChunkQueue_def)
  also have "\<dots> = map_sum id (\<lambda>r'. r' \<lparr> viewMatrix := v \<rparr>)
                    (processChunkQueue_loop w (maxChunksPerFrame r) 0 ?Q ?r0)"
    by (rule processChunkQueue_loop_viewMatrix)
  also have "processChunkQueue_loop w (maxChunksPerFrame r) 0 ?Q ?r0 = updateChunksAroundPlayer r w pp"
    by (simp add: updateChunksAroundPlayer_def Some Let_def processChunkQueue_def)
  finally show ?thesis .
qed

lemma setCamera_viewMatrix:
  "setCamera r pos ang = (setCamera r pos ang') \<lparr> viewMatrix := viewMatrix (setCamera r pos ang) \<rparr>"
  by (cases pos; cases ang; cases ang') (simp add: setCamera_def)


text \<open>
  C8. The claim says that the forward vector used for the streaming priority is computed from the
  camera pitch and yaw.  In the source the vector is computed from the first two entries of
  \<open>camPos\<close>, which \<open>setCamera\<close> fills with the camera position; the angles only reach
  the view matrix, which a streaming pass never reads.  So the load queue and the chunk map after a
  pass are the same for every two orientations of the camera; with the camera at the origin the
  vector is \<open>(1, 0, 0)\<close> whatever the orientation, the chunk at \<open>+x\<close> gets priority
  \<open>1 - 2 = -1\<close> and the chunk at \<open>+y\<close> priority \<open>1\<close>.  The queue is sorted by
  ascending priority, as the claim says.
\<close>

theorem viewVector_ignores_angles:
  "map_sum id chunkLoadQueue (updateChunksAroundPlayer (setCamera r pos ang) w pp)
     = map_sum id chunkLoadQueue (updateChunksAroundPlayer (setCamera r pos ang') w pp)
   \<and> map_sum id chunkMap (updateChunksAroundPlayer (setCamera r pos ang) w pp)
     = map_sum id chunkMap (updateChunksAroundPlayer (setCamera r pos ang') w pp)
   \<and> map_option viewVector (camPos (setCamera r (0, 0, 0) ang)) = Some (1, 0, 0)
   \<and> sorted (map priority (load_queue r w p view))
   \<and> load_entry (stream_renderer \<lparr> chunkSize := 5 \<rparr>) single_dirt_world (0, 0, 0)
         (viewVector (0, 0, 0)) (1, 0, 0) = Some \<lparr> qx = 5, qy = 0, qz = 0, priority = - 1 \<rparr>
   \<and> load_entry (stream_renderer \<lparr> chunkSize := 5 \<rparr>) single_dirt_world (0, 0, 0)
         (viewVector (0, 0, 0)) (0, 1, 0) = Some \<lparr> qx = 0, qy = 5, qz = 0, priority = 1 \<rparr>"
proof -
  let ?V = "viewMatrix (setCamera r pos ang)"
  have e: "updateChunksAroundPlayer (setCamera r pos ang) w pp =
             map_sum id (\<lambda>r'. r' \<lparr> viewMatrix := ?V \<rparr>) (updateChunksAroundPlayer (setCamera r pos ang') w pp)"
    using updateChunksAroundPlayer_viewMatrix[where r = "setCamera r pos ang'" and v = ?V and w = w and pp = pp]
      setCamera_viewMatrix[where r = r and pos = pos and ang = ang and ang' = ang'] by simp
  have 1: "map_sum id chunkLoadQueue (updateChunksAroundPlayer (setCamera r pos ang) w pp)
     = map_sum id chunkLoadQueue (updateChunksAroundPlayer (setCamera r pos ang') w pp)"
    unfolding e by (cases "updateChunksAroundPlayer (setCamera r pos ang') w pp") simp_all
  have 2: "map_sum id chunkMap (updateChunksAroundPlayer (setCamera r pos ang) w pp)
     = map_sum id chunkMap (updateChunksAroundPlayer (setCamera r pos ang') w pp)"
    unfolding e by (cases "updateChunksAroundPlayer (setCamera r pos ang') w pp") simp_all
  have 3: "map_option viewVector (camPos (setCamera r (0, 0, 0) ang)) = Some (1, 0, 0)"
    by (cases ang) (simp add: setCamera_def viewVector_def)
  have 4: "sorted (map priority (load_queue r w p view))"
    by (simp add: load_queue_def)
  have v: "viewVector (0, 0, 0) = (1, 0, 0)" by (simp add: viewVector_def)
  have 5: "load_entry (stream_renderer \<lparr> chunkSize := 5 \<rparr>) single_dirt_world (0, 0, 0)
         (viewVector (0, 0, 0)) (1, 0, 0) = Some \<lparr> qx = 5, qy = 0, qz = 0, priority = - 1 \<rparr>"
    by (simp add: v load_entry_def stream_renderer_def single_dirt_world_def isInBounds_def
          chunk_distance_def getChunkKey_def Let_def)
  have 6: "load_entry (stream_renderer \<lparr> chunkSize := 5 \<rparr>) single_dirt_world (0, 0, 0)
         (viewVector (0, 0, 0)) (0, 1, 0) = Some \<lparr> qx = 0, qy = 5, qz = 0, priority = 1 \<rparr>"
    by (simp add: v load_entry_def stream_renderer_def single_dirt_world_def isInBounds_def
          chunk_distance_def getChunkKey_def Let_def)
  from 1 2 3 4 5 6 show ?thesis by blast
qed

subsection \<open>World creation\<close>

lemma spawn_platform_fails:
  assumes "cx < 2 \<or> cy < 2"
  shows "spawn_platform bs cx cy s = Inl TypeError"
proof -
  have 1: "[cx - 2..cx + 2] = (cx - 2) # [cx - 1..cx + 2]"
    by (subst upto_rec1) simp_all
  have 2: "[cy - 2..cy + 2] = (cy - 2) # [cy - 1..cy + 2]"
    by (subst upto_rec1) simp_all
  have 3: "set_validated bs (cx - 2) (cy - 2) (s - 1) DIRT = Inl TypeError"
    using assms by (auto simp: set_validated_def grid_set_unfold)
  show ?thesis
    by (simp add: spawn_platform_def 1 2 platform_step_def 3)
qed

lemma generateTerrain_try_fails:
  assumes "sX div 2 < 2 \<or> sY div 2 < 2"
  shows "\<exists>e. generateTerrain_try w noise3D perlin rnd sX sY sZ = Inl e"
  by (simp add: generateTerrain_try_def spawn_platform_fails[OF assms] split: sum.splits prod.splits)

lemma new_World_small:
  assumes "0 < sX" "0 < sY" "0 < sZ" "sX \<le> 3 \<or> sY \<le> 3"
  shows "new_World noise3D perlin rnd sX sY sZ = Inl TypeError"
proof -
  let ?w0 = "\<lparr> sx = sX, sy = sY, sz = sZ, blocks = [], lightmap = [],
                  spawnPoint = (0, 0, 0), renderer = None \<rparr>"
  from assms(4) have c: "sX div 2 < 2 \<or> sY div 2 < 2" by auto
  from generateTerrain_try_fails[OF c]
  obtain e where e: "generateTerrain_try ?w0 noise3D perlin rnd sX sY sZ = Inl e" by blast
  from assms(3) have h: "\<not> (sZ div 2 < 0 \<or> sZ div 2 > sZ)" by auto
  obtain w1 bs where g: "generateTerrain ?w0 noise3D perlin rnd sX sY sZ = Inr (w1, bs)"
    and d: "sx w1 = sX" "sy w1 = sY"
    using h by (simp add: generateTerrain_def e createFlatWorld_def)
  have "findSpawnPoint (w1 \<lparr> blocks := bs \<rparr>) = Inl TypeError"
    using c by (simp add: findSpawnPoint_def Let_def d spawn_platform_fails)
  with assms g show ?thesis
    by (simp add: new_World_def Let_def)
qed

text \<open>
  C7. \<open>generateWorld\<close> rejects sizes that are not positive or exceed 254 with one of its
  dimension errors.  It does not succeed for all positive integer sizes up to 254: when \<open>sx\<close> or
  \<open>sy\<close> is at most 3, the spawn platform of \<open>generateTerrain\<close> indexes \<open>blocks[-1]\<close> or
  \<open>blocks[x][-1]\<close>, the exception is caught and the flat world is used, and \<open>findSpawnPoint\<close>
  then makes the same access outside any \<open>try\<close>: the constructor throws a \<open>TypeError\<close> and the
  promise of \<open>generateWorld\<close> is rejected, whatever the noise and the random numbers.
\<close>

theorem generateWorld_small_sizes:
  "(sX \<le> 0 \<or> sY \<le> 0 \<or> sZ \<le> 0 \<or> sX > 254 \<or> sY > 254 \<or> sZ > 254 \<longrightarrow>
      (\<exists>m. generateWorld noise3D perlin rnd sX sY sZ = Inl (Rejected (Error m)))) \<and>
   (0 < i \<and> i \<le> 254 \<and> 0 < j \<and> j \<le> 254 \<and> 0 < k \<and> k \<le> 254 \<and> (i \<le> 3 \<or> j \<le> 3) \<longrightarrow>
      new_World noise3D perlin rnd i j k = Inl TypeError \<and>
      generateWorld noise3D perlin rnd (of_int i) (of_int j) (of_int k) = Inl (Rejected TypeError))"
proof (intro conjI impI)
  assume "sX \<le> 0 \<or> sY \<le> 0 \<or> sZ \<le> 0 \<or> sX > 254 \<or> sY > 254 \<or> sZ > 254"
  then show "\<exists>m. generateWorld noise3D perlin rnd sX sY sZ = Inl (Rejected (Error m))"
    by (auto simp: generateWorld_def)
next
  assume a: "0 < i \<and> i \<le> 254 \<and> 0 < j \<and> j \<le> 254 \<and> 0 < k \<and> k \<le> 254 \<and> (i \<le> 3 \<or> j \<le> 3)"
  then have n: "new_World noise3D perlin rnd i j k = Inl TypeError"
    by (intro new_World_small) auto
  then show "new_World noise3D perlin rnd i j k = Inl TypeError" .
  from a n show "generateWorld noise3D perlin rnd (of_int i) (of_int j) (of_int k) = Inl (Rejected TypeError)"
    by (simp add: generateWorld_def)
qed

theorem generateWorld_small_sizes_witness:
  "generateWorld flat_noise flat_noise (\<lambda>k. 0) 0 1 1 = Inl (Rejected (Error ''World dimensions must be positive'')) \<and>
   generateWorld flat_noise flat_noise (\<lambda>k. 0) 255 1 1 = Inl (Rejected (Error ''World dimensions cannot exceed 254'')) \<and>
   new_World flat_noise flat_noise (\<lambda>k. 0) 1 1 1 = Inl TypeError \<and>
   generateWorld flat_noise flat_noise (\<lambda>k. 0) 1 1 1 = Inl (Rejected TypeError)"
proof -
  have 1: "generateWorld flat_noise flat_noise (\<lambda>k. 0) 0 1 1 = Inl (Rejected (Error ''World dimensions must be positive''))"
    by (simp add: generateWorld_def)
  have 2: "generateWorld flat_noise flat_noise (\<lambda>k. 0) 255 1 1 = Inl (Rejected (Error ''World dimensions cannot exceed 254''))"
    by (simp add: generateWorld_def)
  have 3: "new_World flat_noise flat_noise (\<lambda>k. 0) 1 1 1 = Inl TypeError \<and>
      generateWorld flat_noise flat_noise (\<lambda>k. 0) (of_int 1) (of_int 1) (of_int 1) = Inl (Rejected TypeError)"
    using generateWorld_small_sizes[where i = 1 and j = 1 and k = 1 and noise3D = flat_noise
        and perlin = flat_noise and rnd = "\<lambda>k. 0"]
    by simp
  from 1 2 3 show ?thesis by simp
qed

subsection \<open>Terrain generation\<close>

lemma fold_err_invariant:
  assumes "I s" "\<And>a s. a \<in> set xs \<Longrightarrow> I s \<Longrightarrow> \<exists>s'. f a s = Inr s' \<and> I s'"
  shows "\<exists>s'. fold_err f xs s = Inr s' \<and> I s'"
  using assms
proof (induction xs arbitrary: s)
  case Nil
  then show ?case by simp
next
  case (Cons a xs)
  from Cons.prems obtain s1 where s1: "f a s = Inr s1" "I s1" by (meson list.set_intros(1))
  have "\<exists>s'. fold_err f xs s1 = Inr s' \<and> I s'"
    by (rule Cons.IH[OF s1(2)]) (use Cons.prems(2) in auto)
  with s1 show ?case by simp
qed

lemma fold_err_establish:
  assumes "distinct xs" "c \<in> set xs" "I s"
    "\<And>a s. a \<in> set xs \<Longrightarrow> I s \<Longrightarrow>
        \<exists>s'. f a s = Inr s' \<and> I s' \<and> (a = c \<longrightarrow> Q s') \<and> (a \<noteq> c \<longrightarrow> Q s \<longrightarrow> Q s')"
  shows "\<exists>s'. fold_err f xs s = Inr s' \<and> I s' \<and> Q s'"
proof -
  from split_list[OF assms(2)] obtain pre post where xs: "xs = pre @ c # post" by blast
  with assms(1) have n: "c \<notin> set pre" "c \<notin> set post" by auto
  have "\<exists>s1. fold_err f pre s = Inr s1 \<and> I s1"
    by (rule fold_err_invariant[where I = I, OF assms(3)]) (use assms(4) xs in fastforce)
  then obtain s1 where s1: "fold_err f pre s = Inr s1" "I s1" by blast
  from assms(4)[of c s1] s1(2) assms(2) obtain s2 where s2: "f c s1 = Inr s2" "I s2" "Q s2"
    by blast
  have "\<exists>s'. fold_err f post s2 = Inr s' \<and> (I s' \<and> Q s')"
  proof (rule fold_err_invariant[where I = "\<lambda>s. I s \<and> Q s"])
    show "I s2 \<and> Q s2" using s2 by simp
  next
    fix a t assume a: "a \<in> set post" "I t \<and> Q t"
    with n have "a \<noteq> c" by auto
    moreover from a xs have "a \<in> set xs" by simp
    ultimately show "\<exists>s'. f a t = Inr s' \<and> I s' \<and> Q s'"
      using assms(4)[of a t] a(2) by blast
  qed
  then obtain s3 where "fold_err f post s2 = Inr s3" "I s3" "Q s3" by blast
  with s1 s2 show ?thesis by (simp add: xs fold_err_append)
qed

lemma grid_full_nth:
  assumes "grid_full bs a b c" "0 \<le> x" "x < a" "0 \<le> y" "y < b"
  shows "length bs = nat a" "length (bs ! nat x) = nat b" "length (bs ! nat x ! nat y) = nat c"
    "\<And>z. 0 \<le> z \<Longrightarrow> z < c \<Longrightarrow> bs ! nat x ! nat y ! nat z \<noteq> None"
proof -
  from assms(1) show l: "length bs = nat a" by (simp add: grid_full_def)
  from assms l have x: "nat x < length bs" by simp
  from assms(1) x have p: "length (bs ! nat x) = nat b \<and>
       list_all (\<lambda>column. length column = nat c \<and> list_all (\<lambda>cell. cell \<noteq> None) column) (bs ! nat x)"
    unfolding grid_full_def list_all_length by blast
  then show lp: "length (bs ! nat x) = nat b" by simp
  from assms lp have y: "nat y < length (bs ! nat x)" by simp
  from p y have q: "length (bs ! nat x ! nat y) = nat c \<and> list_all (\<lambda>cell. cell \<noteq> None) (bs ! nat x ! nat y)"
    unfolding list_all_length by blast
  then show lc: "length (bs ! nat x ! nat y) = nat c" by simp
  fix z :: int assume "0 \<le> z" "z < c"
  with lc have "nat z < length (bs ! nat x ! nat y)" by simp
  with q show "bs ! nat x ! nat y ! nat z \<noteq> None" unfolding list_all_length by blast
qed

lemma grid_full_get:
  assumes "grid_full bs a b c" "0 \<le> x" "x < a" "0 \<le> y" "y < b" "0 \<le> z" "z < c"
  shows "\<exists>blk. grid_get bs x y z = Inr (Some blk)"
proof -
  note n = grid_full_nth[OF assms(1-5)]
  from n(4)[OF assms(6,7)] obtain blk where "bs ! nat x ! nat y ! nat z = Some blk" by auto
  with n(1-3) assms show ?thesis
    by (simp add: grid_get_unfold cell_get_def arr_get_def)
qed

lemma list_all_update:
  assumes "list_all P xs" "P v"
  shows "list_all P (xs[i := v])"
  using assms set_update_subset_insert[of xs i v] by (auto simp: list_all_iff)

lemma grid_full_set:
  assumes "grid_full bs a b c" "0 \<le> x" "x < a" "0 \<le> y" "y < b" "0 \<le> z" "z < c"
  shows "\<exists>bs'. grid_set bs x y z (Some v) = Inr bs' \<and> grid_full bs' a b c"
proof -
  note n = grid_full_nth[OF assms(1-5)]
  let ?C = "\<lambda>column. length column = nat c \<and> list_all (\<lambda>cell. cell \<noteq> None) column"
  let ?P = "\<lambda>plane. length plane = nat b \<and> list_all ?C plane"
  let ?col = "(bs ! nat x ! nat y)[nat z := Some v]"
  let ?plane = "(bs ! nat x)[nat y := ?col]"
  let ?bs = "bs[nat x := ?plane]"
  have s: "grid_set bs x y z (Some v) = Inr ?bs"
    using n(1-3) assms by (simp add: grid_set_unfold arr_set_def)
  from assms(1) have all: "list_all ?P bs" by (simp add: grid_full_def)
  from assms(2,3) n(1) have "bs ! nat x \<in> set bs" by simp
  with all have P: "?P (bs ! nat x)" unfolding list_all_iff by blast
  from assms(4,5) n(2) have "bs ! nat x ! nat y \<in> set (bs ! nat x)" by simp
  with P have C: "?C (bs ! nat x ! nat y)" unfolding list_all_iff by blast
  from C have col: "?C ?col" by (simp add: list_all_update)
  from P have "list_all ?C ?plane" using col by (intro list_all_update) simp_all
  with P have plane: "?P ?plane" by simp
  from all plane have "list_all ?P ?bs" by (rule list_all_update)
  with n(1) have "grid_full ?bs a b c" by (simp add: grid_full_def)
  with s show ?thesis by blast
qed

lemma cell_id_set_other:
  assumes "grid_set bs x y z v = Inr bs'" "(x', y', z') \<noteq> (x, y, z)"
  shows "cell_id bs' x' y' z' = cell_id bs x' y' z'"
  using grid_set_other[OF assms] by (simp add: cell_id_def)

lemma cell_id_set_same:
  assumes "grid_set bs x y z (Some v) = Inr bs'" "0 \<le> z"
  shows "cell_id bs' x y z = Inr (bid v)"
  using grid_set_same[OF assms] by (simp add: cell_id_def)

lemma bid_validateBlock:
  "bid (validateBlock (Some b)) = (case bid b of None \<Rightarrow> Some 0 | Some i \<Rightarrow> Some i)"
  by (simp add: validateBlock_def bid_AIR validateBlockType_def split: option.splits)

lemma set_validated_full:
  assumes "grid_full bs a b c" "0 \<le> x" "x < a" "0 \<le> y" "y < b" "0 \<le> z" "z < c"
  shows "\<exists>bs'. set_validated bs x y z blk = Inr bs' \<and> grid_full bs' a b c \<and>
           (\<forall>x' y' z'. cell_id bs' x' y' z' =
              (if x' = x \<and> y' = y \<and> z' = z then Inr (bid (validateBlock (Some blk)))
               else cell_id bs x' y' z'))"
proof -
  from grid_full_set[OF assms] obtain bs' where
    s: "grid_set bs x y z (Some (validateBlock (Some blk))) = Inr bs'" and g: "grid_full bs' a b c"
    by blast
  have "cell_id bs' x' y' z' =
              (if x' = x \<and> y' = y \<and> z' = z then Inr (bid (validateBlock (Some blk)))
               else cell_id bs x' y' z')" for x' y' z'
    using cell_id_set_other[OF s, of x' y' z'] cell_id_set_same[OF s assms(6)] by auto
  with s g show ?thesis by (simp add: set_validated_def)
qed

lemma column_loop:
  assumes "grid_full bs a b c" "0 \<le> x" "x < a" "0 \<le> y" "y < b"
    "\<forall>j \<in> set js. 0 \<le> zf j \<and> zf j < c"
  shows "\<exists>bs'. fold_err (\<lambda>j bs. set_validated bs x y (zf j) (g (zf j))) js bs = Inr bs' \<and>
           grid_full bs' a b c \<and>
           (\<forall>x' y' z'. cell_id bs' x' y' z' =
              (if x' = x \<and> y' = y \<and> z' \<in> zf ` set js then Inr (bid (validateBlock (Some (g z'))))
               else cell_id bs x' y' z'))"
  using assms
proof (induction js arbitrary: bs)
  case Nil
  then show ?case by simp
next
  case (Cons j js)
  from Cons.prems(6) have z: "0 \<le> zf j" "zf j < c" by simp_all
  from set_validated_full[OF Cons.prems(1-5) z, of "g (zf j)"] obtain bs1 where
    1: "set_validated bs x y (zf j) (g (zf j)) = Inr bs1" "grid_full bs1 a b c"
    and 2: "\<And>x' y' z'. cell_id bs1 x' y' z' =
              (if x' = x \<and> y' = y \<and> z' = zf j then Inr (bid (validateBlock (Some (g (zf j)))))
               else cell_id bs x' y' z')"
    by blast
  from Cons.prems(6) have r: "\<forall>j \<in> set js. 0 \<le> zf j \<and> zf j < c" by simp
  from Cons.IH[OF 1(2) Cons.prems(2-5) r] obtain bs' where
    3: "fold_err (\<lambda>j bs. set_validated bs x y (zf j) (g (zf j))) js bs1 = Inr bs'" "grid_full bs' a b c"
    and 4: "\<And>x' y' z'. cell_id bs' x' y' z' =
              (if x' = x \<and> y' = y \<and> z' \<in> zf ` set js then Inr (bid (validateBlock (Some (g z'))))
               else cell_id bs1 x' y' z')"
    by blast
  have "cell_id bs' x' y' z' =
          (if x' = x \<and> y' = y \<and> z' \<in> zf ` set (j # js) then Inr (bid (validateBlock (Some (g z'))))
           else cell_id bs x' y' z')" for x' y' z'
    unfolding 4[of x' y' z'] 2[of x' y' z'] by auto
  with 1 3 show ?case by simp
qed

lemma cell_id_full:
  assumes "grid_full bs a b c" "0 \<le> x" "x < a" "0 \<le> y" "y < b" "0 \<le> z" "z < c"
  shows "\<exists>i. cell_id bs x y z = Inr i"
  using grid_full_get[OF assms] by (auto simp: cell_id_def)

lemma leaf_step_keeps:
  assumes "grid_full bs (sx w) (sy w) (sz w)" "cell_id bs px py pz = Inr (Some v)" "v \<noteq> 0"
  shows "\<exists>bs'. leaf_step w x y ls off bs = Inr bs' \<and> grid_full bs' (sx w) (sy w) (sz w) \<and>
           cell_id bs' px py pz = Inr (Some v)"
proof -
  obtain lx ly lz where off: "off = (lx, ly, lz)" by (cases off) auto
  show ?thesis
  proof (cases "isInBounds w (x + lx) (y + ly) (ls + lz)")
    case False
    with assms show ?thesis by (simp add: leaf_step_def off)
  next
    case True
    then have b: "0 \<le> x + lx" "x + lx < sx w" "0 \<le> y + ly" "y + ly < sy w" "0 \<le> ls + lz" "ls + lz < sz w"
      by (simp_all add: isInBounds_def)
    from cell_id_full[OF assms(1) b] obtain i where i: "cell_id bs (x + lx) (y + ly) (ls + lz) = Inr i"
      by blast
    show ?thesis
    proof (cases "i = bid AIR")
      case False
      with True i assms show ?thesis by (simp add: leaf_step_def off)
    next
      case air: True
      from set_validated_full[OF assms(1) b, of LEAVES] obtain bs' where
        s: "set_validated bs (x + lx) (y + ly) (ls + lz) LEAVES = Inr bs'" "grid_full bs' (sx w) (sy w) (sz w)"
        and c: "\<And>x' y' z'. cell_id bs' x' y' z' =
              (if x' = x + lx \<and> y' = y + ly \<and> z' = ls + lz then Inr (bid (validateBlock (Some LEAVES)))
               else cell_id bs x' y' z')"
        by blast
      have "\<not> (px = x + lx \<and> py = y + ly \<and> pz = ls + lz)"
        using i air assms(2,3) by (auto simp: bid_AIR)
      with c[of px py pz] assms(2) have "cell_id bs' px py pz = Inr (Some v)" by auto
      with True i air s show ?thesis by (simp add: leaf_step_def off)
    qed
  qed
qed

lemma bid_WOOD: "bid (validateBlock (Some WOOD)) = Some 3"
  by (simp add: bid_validateBlock WOOD_def bid_block_type)

lemma addTree_trunk:
  assumes "sx w = 5" "sy w = 5" "sz w = 15" "grid_full bs 5 5 15" "rnd k = 0"
  shows "\<exists>bs'. addTree w rnd 2 2 8 (bs, k) = Inr (bs', k + 1) \<and> grid_full bs' 5 5 15 \<and>
           cell_id bs' 2 2 11 = Inr (Some 3)"
proof -
  have r: "\<forall>j \<in> set [0..4]. 0 \<le> 8 + j \<and> 8 + j < (15::int)" by simp
  from column_loop[where zf = "\<lambda>j. 8 + j" and g = "\<lambda>z. WOOD" and x = 2 and y = 2 and js = "[0..4]",
      OF assms(4) _ _ _ _ r]
  obtain bs1 where
    1: "fold_err (\<lambda>j bs. set_validated bs 2 2 (8 + j) WOOD) [0..4] bs = Inr bs1" "grid_full bs1 5 5 15"
    and 2: "\<And>x' y' z'. cell_id bs1 x' y' z' =
              (if x' = 2 \<and> y' = 2 \<and> z' \<in> (\<lambda>j. 8 + j) ` set [0..4] then Inr (bid (validateBlock (Some WOOD)))
               else cell_id bs x' y' z')"
    by auto
  have "(11::int) \<in> (\<lambda>j. 8 + j) ` set [0..4]" by (rule image_eqI[where x = 3]) simp_all
  with 2[of 2 2 11] have 3: "cell_id bs1 2 2 11 = Inr (Some 3)" by (simp add: bid_WOOD)
  have "\<exists>bs'. fold_err (leaf_step w 2 2 10) leaf_offsets bs1 = Inr bs' \<and>
          (grid_full bs' (sx w) (sy w) (sz w) \<and> cell_id bs' 2 2 11 = Inr (Some 3))"
  proof (rule fold_err_invariant[where I = "\<lambda>bs. grid_full bs (sx w) (sy w) (sz w) \<and> cell_id bs 2 2 11 = Inr (Some 3)"])
    show "grid_full bs1 (sx w) (sy w) (sz w) \<and> cell_id bs1 2 2 11 = Inr (Some 3)"
      using 1(2) 3 assms by simp
  next
    fix a s assume "grid_full s (sx w) (sy w) (sz w) \<and> cell_id s 2 2 11 = Inr (Some 3)"
    then show "\<exists>s'. leaf_step w 2 2 10 a s = Inr s' \<and> grid_full s' (sx w) (sy w) (sz w) \<and> cell_id s' 2 2 11 = Inr (Some 3)"
      using leaf_step_keeps[of s w 2 2 11 3 2 2 10 a] by simp
  qed
  then obtain bs' where 4: "fold_err (leaf_step w 2 2 10) leaf_offsets bs1 = Inr bs'"
    "grid_full bs' 5 5 15" "cell_id bs' 2 2 11 = Inr (Some 3)"
    using assms by auto
  have "addTree w rnd 2 2 8 (bs, k) = Inr (bs', k + 1)"
    using assms 1 4 by (simp add: addTree_def isInBounds_def)
  with 4 show ?thesis by simp
qed

lemma addTree_out:
  assumes "sx w = 5" "sy w = 5" "(x, y) \<noteq> (2, 2)"
  shows "addTree w rnd x y z (bs, k) = Inr (bs, k)"
  using assms by (auto simp: addTree_def isInBounds_def)

lemma terrain_block_above: "terrain_block 11 8 7 = AIR"
  by (simp add: terrain_block_def)

lemma bid_validateBlock_AIR: "bid (validateBlock (Some AIR)) = Some 0"
  by (simp add: bid_validateBlock bid_AIR)

lemma terrain_zloop:
  assumes "grid_full bs 5 5 15" "0 \<le> x" "x < 5" "0 \<le> y" "y < 5"
  shows "\<exists>bs'. fold_err (\<lambda>z bs. set_validated bs x y z (terrain_block z fh wl)) [0..14] bs = Inr bs' \<and>
           grid_full bs' 5 5 15 \<and>
           ((x, y) = (2, 2) \<longrightarrow> cell_id bs' 2 2 11 = Inr (bid (validateBlock (Some (terrain_block 11 fh wl))))) \<and>
           ((x, y) \<noteq> (2, 2) \<longrightarrow> cell_id bs' 2 2 11 = cell_id bs 2 2 11)"
proof -
  have r: "\<forall>j \<in> set [0..14]. 0 \<le> (\<lambda>z. z) j \<and> (\<lambda>z. z) j < (15::int)" by simp
  from column_loop[where zf = "\<lambda>z. z" and g = "\<lambda>z. terrain_block z fh wl" and js = "[0..14]",
      OF assms r]
  obtain bs' where
    1: "fold_err (\<lambda>z bs. set_validated bs x y z (terrain_block z fh wl)) [0..14] bs = Inr bs'"
       "grid_full bs' 5 5 15"
    and 2: "\<And>x' y' z'. cell_id bs' x' y' z' =
              (if x' = x \<and> y' = y \<and> z' \<in> (\<lambda>z. z) ` set [0..14]
               then Inr (bid (validateBlock (Some (terrain_block z' fh wl))))
               else cell_id bs x' y' z')"
    by auto
  from 2[of 2 2 11] have "(x, y) = (2, 2) \<longrightarrow>
      cell_id bs' 2 2 11 = Inr (bid (validateBlock (Some (terrain_block 11 fh wl))))" by auto
  moreover from 2[of 2 2 11] have "(x, y) \<noteq> (2, 2) \<longrightarrow> cell_id bs' 2 2 11 = cell_id bs 2 2 11"
    by auto
  ultimately show ?thesis using 1 by blast
qed

lemma waterLevel_15: "\<lfloor>of_int 15 * 0.5 :: real\<rfloor> = 7"
  by (simp add: floor_eq_iff)

lemma terrain_column_no_tree:
  assumes "sx w = 5" "sy w = 5" "sz w = 15" "grid_full bs 5 5 15" "0 \<le> x" "x < 5" "0 \<le> y" "y < 5"
    "finalHeight noise3D 15 2 2 = 8"
  shows "\<exists>bs' k'. terrain_column w noise3D (\<lambda>k. 1 / 2) 15 (x, y) (bs, k) = Inr (bs', k') \<and>
           grid_full bs' 5 5 15 \<and>
           ((x, y) = (2, 2) \<longrightarrow> cell_id bs' 2 2 11 = Inr (Some 0)) \<and>
           ((x, y) \<noteq> (2, 2) \<longrightarrow> cell_id bs' 2 2 11 = cell_id bs 2 2 11)"
proof -
  let ?fh = "finalHeight noise3D 15 x y"
  from terrain_zloop[OF assms(4-8), of ?fh 7] obtain bs' where
    1: "fold_err (\<lambda>z bs. set_validated bs x y z (terrain_block z ?fh 7)) [0..14] bs = Inr bs'"
       "grid_full bs' 5 5 15"
    and 2: "(x, y) = (2, 2) \<longrightarrow> cell_id bs' 2 2 11 = Inr (bid (validateBlock (Some (terrain_block 11 ?fh 7))))"
    and 3: "(x, y) \<noteq> (2, 2) \<longrightarrow> cell_id bs' 2 2 11 = cell_id bs 2 2 11"
    by blast
  from 2 assms(9) have 4: "(x, y) = (2, 2) \<longrightarrow> cell_id bs' 2 2 11 = Inr (Some 0)"
    by (auto simp: terrain_block_above bid_validateBlock_AIR)
  have "terrain_column w noise3D (\<lambda>k. 1 / 2) 15 (x, y) (bs, k) =
          Inr (bs', if ?fh > 7 then k + 1 else k)"
    by (simp add: terrain_column_def Let_def waterLevel_15 1)
  with 1 3 4 show ?thesis by blast
qed

lemma terrain_column_tree:
  assumes "sx w = 5" "sy w = 5" "sz w = 15" "grid_full bs 5 5 15" "0 \<le> x" "x < 5" "0 \<le> y" "y < 5"
    "finalHeight noise3D 15 2 2 = 8"
  shows "\<exists>bs' k'. terrain_column w noise3D (\<lambda>k. 0) 15 (x, y) (bs, k) = Inr (bs', k') \<and>
           grid_full bs' 5 5 15 \<and>
           ((x, y) = (2, 2) \<longrightarrow> cell_id bs' 2 2 11 = Inr (Some 3)) \<and>
           ((x, y) \<noteq> (2, 2) \<longrightarrow> cell_id bs' 2 2 11 = cell_id bs 2 2 11)"
proof -
  let ?fh = "finalHeight noise3D 15 x y"
  from terrain_zloop[OF assms(4-8), of ?fh 7] obtain bs1 where
    1: "fold_err (\<lambda>z bs. set_validated bs x y z (terrain_block z ?fh 7)) [0..14] bs = Inr bs1"
       "grid_full bs1 5 5 15"
    and 3: "(x, y) \<noteq> (2, 2) \<longrightarrow> cell_id bs1 2 2 11 = cell_id bs 2 2 11"
    by blast
  have c: "terrain_column w noise3D (\<lambda>k. 0) 15 (x, y) (bs, k) =
          (if ?fh > 7 then addTree w (\<lambda>k. 0) x y ?fh (bs1, k + 1) else Inr (bs1, k))"
    by (simp add: terrain_column_def Let_def waterLevel_15 1)
  show ?thesis
  proof (cases "(x, y) = (2, 2)")
    case True
    from addTree_trunk[OF assms(1-3) 1(2), of "\<lambda>k. 0" "k + 1"] obtain bs' where
      "addTree w (\<lambda>k. 0) 2 2 8 (bs1, k + 1) = Inr (bs', k + 1 + 1)" "grid_full bs' 5 5 15"
      "cell_id bs' 2 2 11 = Inr (Some 3)" by auto
    with c True assms(9) show ?thesis by auto
  next
    case False
    from addTree_out[OF assms(1,2) False] have "addTree w (\<lambda>k. 0) x y ?fh (bs1, k + 1) = Inr (bs1, k + 1)" .
    with c have "terrain_column w noise3D (\<lambda>k. 0) 15 (x, y) (bs, k) =
          Inr (bs1, if ?fh > 7 then k + 1 else k)" by simp
    with 1 3 False show ?thesis by blast
  qed
qed

lemma product_Nil2: "List.product xs [] = []"
  by (induction xs) simp_all

lemma generateCaves_15: "generateCaves w perlin rnd 5 5 15 s = Inr s"
  by (simp add: generateCaves_def product_Nil2)

lemma platform_step_keeps:
  assumes "grid_full bs a b c" "0 \<le> x" "x < a" "0 \<le> y" "y < b" "1 \<le> s" "s + 1 < c"
    "pz \<noteq> s - 1" "pz \<noteq> s" "pz \<noteq> s + 1"
  shows "\<exists>bs'. platform_step s (x, y) bs = Inr bs' \<and> grid_full bs' a b c \<and>
           cell_id bs' px py pz = cell_id bs px py pz"
proof -
  from assms(6,7) have z: "0 \<le> s - 1" "s - 1 < c" "0 \<le> s" "s < c" "0 \<le> s + 1" by simp_all
  from set_validated_full[OF assms(1-5) z(1,2), of DIRT] obtain bs1 where
    1: "set_validated bs x y (s - 1) DIRT = Inr bs1" "grid_full bs1 a b c"
       "cell_id bs1 px py pz = cell_id bs px py pz"
    using assms(8) by auto
  from set_validated_full[OF 1(2) assms(2-5) z(3,4), of AIR] obtain bs2 where
    2: "set_validated bs1 x y s AIR = Inr bs2" "grid_full bs2 a b c"
       "cell_id bs2 px py pz = cell_id bs1 px py pz"
    using assms(9) by auto
  from set_validated_full[OF 2(2) assms(2-5) z(5) assms(7), of AIR] obtain bs3 where
    3: "set_validated bs2 x y (s + 1) AIR = Inr bs3" "grid_full bs3 a b c"
       "cell_id bs3 px py pz = cell_id bs2 px py pz"
    using assms(10) by auto
  from 1 2 3 show ?thesis by (simp add: platform_step_def)
qed

lemma spawnZ_15: "\<lfloor>of_int 15 * 0.6 :: real\<rfloor> = 9"
  by (simp add: floor_eq_iff)

lemma spawn_platform_keeps:
  assumes "grid_full bs 5 5 15" "cell_id bs 2 2 11 = Inr (Some v)"
  shows "\<exists>bs'. spawn_platform bs 2 2 9 = Inr bs' \<and> grid_full bs' 5 5 15 \<and>
           cell_id bs' 2 2 11 = Inr (Some v)"
  unfolding spawn_platform_def
proof (rule fold_err_invariant[where I = "\<lambda>bs. grid_full bs 5 5 15 \<and> cell_id bs 2 2 11 = Inr (Some v)"])
  show "grid_full bs 5 5 15 \<and> cell_id bs 2 2 11 = Inr (Some v)" using assms by simp
next
  fix a s
  assume a: "a \<in> set (List.product [2 - 2..2 + 2] [2 - 2..2 + 2])"
    and i: "grid_full s 5 5 15 \<and> cell_id s 2 2 11 = Inr (Some v)"
  obtain x y where xy: "a = (x, y)" by (cases a) auto
  with a have r: "0 \<le> x" "x < 5" "0 \<le> y" "y < 5" by auto
  from i have g: "grid_full s 5 5 15" by simp
  from platform_step_keeps[OF g r, of 9 11 2 2] i xy
  show "\<exists>s'. platform_step 9 a s = Inr s' \<and> grid_full s' 5 5 15 \<and> cell_id s' 2 2 11 = Inr (Some v)"
    by auto
qed

lemma revalidate_step_keeps:
  assumes "grid_full bs a b c" "0 \<le> x" "x < a" "0 \<le> y" "y < b" "0 \<le> z" "z < c"
    "cell_id bs px py pz = Inr (Some v)"
  shows "\<exists>bs'. revalidate_step (x, y, z) bs = Inr bs' \<and> grid_full bs' a b c \<and>
           cell_id bs' px py pz = Inr (Some v)"
proof -
  from grid_full_get[OF assms(1-7)] obtain blk where g: "grid_get bs x y z = Inr (Some blk)" by blast
  from grid_full_set[OF assms(1-7), of "validateBlock (Some blk)"] obtain bs' where
    s: "grid_set bs x y z (Some (validateBlock (Some blk))) = Inr bs'" "grid_full bs' a b c" by blast
  have "cell_id bs' px py pz = Inr (Some v)"
  proof (cases "(px, py, pz) = (x, y, z)")
    case True
    with assms(8) g have "bid blk = Some v" by (simp add: cell_id_def)
    then have "bid (validateBlock (Some blk)) = Some v" by (simp add: bid_validateBlock)
    with cell_id_set_same[OF s(1) assms(6)] True show ?thesis by simp
  next
    case False
    from cell_id_set_other[OF s(1) False] assms(8) show ?thesis by simp
  qed
  with g s show ?thesis by (simp add: revalidate_step_def)
qed

lemma findIndex_air_full:
  "list_all (\<lambda>cell. cell \<noteq> None) column \<Longrightarrow> findIndex_air column = Inr ()"
  by (induction column rule: findIndex_air.induct) simp_all

lemma centerHeight_full:
  assumes "grid_full bs a b c" "0 \<le> x" "x < a" "0 \<le> y" "y < b"
  shows "centerHeight bs x y = Inr ()"
proof -
  note n = grid_full_nth[OF assms]
  have "list_all (\<lambda>cell. cell \<noteq> None) (bs ! nat x ! nat y)"
    unfolding list_all_length using n(3,4)
    by (metis nat_int of_nat_0_le_iff zless_nat_conj zless_nat_eq_int_zless)
  then have "findIndex_air (bs ! nat x ! nat y) = Inr ()" by (rule findIndex_air_full)
  with n(1,2) assms show ?thesis by (simp add: centerHeight_def arr_get_def)
qed

lemma terrain_loop_run:
  assumes "sx w = 5" "sy w = 5" "sz w = 15" "grid_full bs 5 5 15" "finalHeight noise3D 15 2 2 = 8"
    "rnd = (\<lambda>k. 1 / 2) \<and> v = 0 \<or> rnd = (\<lambda>k. 0) \<and> v = 3"
  shows "\<exists>s'. fold_err (terrain_column w noise3D rnd 15) (List.product [0..4] [0..4]) (bs, k) = Inr s' \<and>
           grid_full (fst s') 5 5 15 \<and> cell_id (fst s') 2 2 11 = Inr (Some v)"
proof (rule fold_err_establish[where c = "(2, 2)" and I = "\<lambda>s. grid_full (fst s) 5 5 15"
      and Q = "\<lambda>s. cell_id (fst s) 2 2 11 = Inr (Some v)"])
  show "distinct (List.product [0..4] [0..4::int])" by (simp add: distinct_product)
  show "(2, 2) \<in> set (List.product [0..4] [0..4::int])" by simp
  show "grid_full (fst (bs, k)) 5 5 15" using assms(4) by simp
next
  fix a :: "int \<times> int" and s :: "grid \<times> nat"
  assume a: "a \<in> set (List.product [0..4] [0..4])" and i: "grid_full (fst s) 5 5 15"
  obtain x y where xy: "a = (x, y)" by (cases a) auto
  obtain b n where s: "s = (b, n)" by (cases s) auto
  from a xy have r: "0 \<le> x" "x < 5" "0 \<le> y" "y < 5" by auto
  from i s have g: "grid_full b 5 5 15" by simp
  from assms(6) show "\<exists>s'. terrain_column w noise3D rnd 15 a s = Inr s' \<and> grid_full (fst s') 5 5 15 \<and>
            (a = (2, 2) \<longrightarrow> cell_id (fst s') 2 2 11 = Inr (Some v)) \<and>
            (a \<noteq> (2, 2) \<longrightarrow> cell_id (fst s) 2 2 11 = Inr (Some v) \<longrightarrow> cell_id (fst s') 2 2 11 = Inr (Some v))"
  proof
    assume h: "rnd = (\<lambda>k. 1 / 2) \<and> v = 0"
    from terrain_column_no_tree[OF assms(1-3) g r assms(5), of n] h show ?thesis
      unfolding xy s by auto
  next
    assume h: "rnd = (\<lambda>k. 0) \<and> v = 3"
    from terrain_column_tree[OF assms(1-3) g r assms(5), of n] h show ?thesis
      unfolding xy s by auto
  qed
qed

lemma grid_full_fresh: "grid_full (replicate 5 (replicate 5 (replicate 15 (Some AIR)))) 5 5 15"
  by (simp add: grid_full_def list_all_iff)

lemma bedrock_loop:
  assumes "grid_full bs 5 5 15"
  shows "\<exists>bs'. fold_err (\<lambda>(x, y) bs. set_validated bs x y 0 BEDROCK) (List.product [0..4] [0..4]) bs = Inr bs' \<and>
           grid_full bs' 5 5 15"
proof (rule fold_err_invariant[where I = "\<lambda>bs. grid_full bs 5 5 15", OF assms])
  fix a :: "int \<times> int" and s :: grid
  assume a: "a \<in> set (List.product [0..4] [0..4])" and g: "grid_full s 5 5 15"
  obtain x y where xy: "a = (x, y)" by (cases a) auto
  from a xy have r: "0 \<le> x" "x < 5" "0 \<le> y" "y < 5" by auto
  from set_validated_full[OF g r, of 0 BEDROCK] xy
  show "\<exists>s'. (case a of (x, y) \<Rightarrow> \<lambda>bs. set_validated bs x y 0 BEDROCK) s = Inr s' \<and> grid_full s' 5 5 15"
    by auto
qed

lemma revalidate_loop:
  assumes "grid_full bs 5 5 15" "cell_id bs 2 2 11 = Inr (Some v)"
  shows "\<exists>bs'. fold_err revalidate_step (cells 5 5 15) bs = Inr bs' \<and>
           (grid_full bs' 5 5 15 \<and> cell_id bs' 2 2 11 = Inr (Some v))"
proof (rule fold_err_invariant[where I = "\<lambda>bs. grid_full bs 5 5 15 \<and> cell_id bs 2 2 11 = Inr (Some v)"])
  show "grid_full bs 5 5 15 \<and> cell_id bs 2 2 11 = Inr (Some v)" using assms by simp
next
  fix a :: "int \<times> int \<times> int" and s :: grid
  assume a: "a \<in> set (cells 5 5 15)" and i: "grid_full s 5 5 15 \<and> cell_id s 2 2 11 = Inr (Some v)"
  obtain x y z where xyz: "a = (x, y, z)" by (cases a) auto
  from a xyz have r: "0 \<le> x" "x < 5" "0 \<le> y" "y < 5" "0 \<le> z" "z < 15" by (simp_all add: set_cells)
  from i have g: "grid_full s 5 5 15" and c: "cell_id s 2 2 11 = Inr (Some v)" by simp_all
  from revalidate_step_keeps[OF g r c] xyz
  show "\<exists>s'. revalidate_step a s = Inr s' \<and> grid_full s' 5 5 15 \<and> cell_id s' 2 2 11 = Inr (Some v)"
    by simp
qed

lemma generateTerrain_try_run:
  assumes "sx w = 5" "sy w = 5" "sz w = 15" "finalHeight noise3D 15 2 2 = 8"
    "rnd = (\<lambda>k. 1 / 2) \<and> v = 0 \<or> rnd = (\<lambda>k. 0) \<and> v = 3"
  shows "\<exists>bs. generateTerrain_try w noise3D perlin rnd 5 5 15 = Inr bs \<and> grid_full bs 5 5 15 \<and>
           cell_id bs 2 2 11 = Inr (Some v)"
proof -
  from bedrock_loop[OF grid_full_fresh] obtain bs1 where
    1: "fold_err (\<lambda>(x, y) bs. set_validated bs x y 0 BEDROCK) (List.product [0..4] [0..4])
          (replicate 5 (replicate 5 (replicate 15 (Some AIR)))) = Inr bs1" "grid_full bs1 5 5 15"
    by blast
  from terrain_loop_run[OF assms(1-3) 1(2) assms(4,5), of 0] obtain bs2 k where
    2: "fold_err (terrain_column w noise3D rnd 15) (List.product [0..4] [0..4]) (bs1, 0) = Inr (bs2, k)"
       "grid_full bs2 5 5 15" "cell_id bs2 2 2 11 = Inr (Some v)"
    by force
  from spawn_platform_keeps[OF 2(2,3)] obtain bs4 where
    4: "spawn_platform bs2 2 2 9 = Inr bs4" "grid_full bs4 5 5 15" "cell_id bs4 2 2 11 = Inr (Some v)"
    by blast
  from revalidate_loop[OF 4(2,3)] obtain bs5 where
    5: "fold_err revalidate_step (cells 5 5 15) bs4 = Inr bs5" "grid_full bs5 5 5 15"
       "cell_id bs5 2 2 11 = Inr (Some v)"
    by blast
  have 6: "centerHeight bs5 2 2 = Inr ()" by (rule centerHeight_full[OF 5(2)]) simp_all
  have "generateTerrain_try w noise3D perlin rnd 5 5 15 = Inr bs5"
    by (simp add: generateTerrain_try_def 1 2 generateCaves_15 spawnZ_15 4 5 6)
  with 5 show ?thesis by blast
qed

lemma lighting_scan_full:
  assumes "grid_full bs a b c" "0 \<le> x" "x < a" "0 \<le> y" "y < b" "int n \<le> c"
  shows "\<exists>m. lighting_scan bs x y mz n = Inr m"
  using assms(6)
proof (induction n)
  case 0
  then show ?case by simp
next
  case (Suc n)
  then have r: "0 \<le> int n" "int n < c" by simp_all
  from grid_full_get[OF assms(1-5) r] obtain blk where "grid_get bs x y (int n) = Inr (Some blk)"
    by blast
  moreover from Suc have "\<exists>m. lighting_scan bs x y mz n = Inr m" by simp
  ultimately show ?case by auto
qed

lemma updateLighting_full:
  assumes "grid_full (blocks w) (sx w) (sy w) (sz w)" "0 \<le> sz w" "length (lightmap w) = nat (sx w)"
  shows "\<exists>lm. updateLighting w = Inr (w \<lparr> lightmap := lm \<rparr>)"
proof -
  let ?f = "\<lambda>(x, y) lm.
                case lighting_scan (blocks w) x y (sz w - 1) (nat (sz w)) of
                  Inl e \<Rightarrow> Inl e
                | Inr maxZ \<Rightarrow> lightmap_set lm x y maxZ"
  have "\<exists>lm. fold_err ?f (List.product [0..sx w - 1] [0..sy w - 1]) (lightmap w) = Inr lm \<and>
          length lm = nat (sx w)"
  proof (rule fold_err_invariant[where I = "\<lambda>lm. length lm = nat (sx w)", OF assms(3)])
    fix a :: "int \<times> int" and lm :: "int list list"
    assume a: "a \<in> set (List.product [0..sx w - 1] [0..sy w - 1])" and l: "length lm = nat (sx w)"
    obtain x y where xy: "a = (x, y)" by (cases a) auto
    from a xy have r: "0 \<le> x" "x < sx w" "0 \<le> y" "y < sy w" by auto
    from assms(2) have "int (nat (sz w)) \<le> sz w" by simp
    from lighting_scan_full[OF assms(1) r this] obtain m where
      m: "lighting_scan (blocks w) x y (sz w - 1) (nat (sz w)) = Inr m" by blast
    from r l have "\<exists>lm'. lightmap_set lm x y m = Inr lm' \<and> length lm' = nat (sx w)"
      by (simp add: lightmap_set_def arr_get_def)
    with m xy show "\<exists>s'. ?f a lm = Inr s' \<and> length s' = nat (sx w)" by simp
  qed
  then show ?thesis by (auto simp: updateLighting_def)
qed

lemma grid_full_has:
  assumes "grid_full bs a b c" "0 \<le> x" "x < a" "0 \<le> y" "y < b"
  shows "grid_has bs x y"
  using grid_full_nth(1,2)[OF assms] assms by (simp add: grid_has_def)

lemma toNetworkString_loop:
  assumes "\<forall>(x, y, z) \<in> set cs. grid_has bs x y"
  shows "fold_err (toNetworkString_cell bs) cs acc =
           Inr (acc @ map (\<lambda>(x, y, z). block_code (validateBlock (grid_get_opt bs x y z))) cs)"
  using assms
proof (induction cs arbitrary: acc)
  case Nil
  then show ?case by simp
next
  case (Cons c cs)
  obtain x y z where c: "c = (x, y, z)" by (cases c) auto
  with Cons.prems have "grid_has bs x y" by simp
  then have "grid_get bs x y z = Inr (grid_get_opt bs x y z)" by (rule grid_get_opt_get)
  moreover from Cons.prems have "\<forall>(x, y, z) \<in> set cs. grid_has bs x y" by simp
  ultimately show ?case using Cons.IH by (simp add: c toNetworkString_cell_def)
qed

lemma toNetworkString_full:
  assumes "sx w = 5" "sy w = 5" "sz w = 15" "grid_full (blocks w) 5 5 15"
    "cell_id (blocks w) 2 2 11 = Inr (Some v)"
  shows "\<exists>s. toNetworkString w = Inr s \<and> s ! 191 = fromCharCode (97 + v)"
proof -
  let ?f = "\<lambda>(x, y, z). block_code (validateBlock (grid_get_opt (blocks w) x y z))"
  have "\<forall>(x, y, z) \<in> set (cells 5 5 15). grid_has (blocks w) x y"
    using grid_full_has[OF assms(4)] by (auto simp: set_cells)
  from toNetworkString_loop[OF this, of "[]"]
  have s: "toNetworkString w = Inr (map ?f (cells 5 5 15))"
    by (simp add: toNetworkString_def assms)
  have l: "191 < length (cells 5 5 15)" using length_cells[of 5 5 15] by simp
  from cells_nth[OF l] have n: "cells 5 5 15 ! 191 = (2, 2, 11)" by simp
  have h: "grid_has (blocks w) 2 2" by (rule grid_full_has[OF assms(4)]) simp_all
  from assms(5) grid_get_opt_get[OF h, of 11] obtain blk where
    b: "grid_get_opt (blocks w) 2 2 11 = Some blk" "bid blk = Some v"
    by (auto simp: cell_id_def split: option.splits)
  have "map ?f (cells 5 5 15) ! 191 = ?f (cells 5 5 15 ! 191)" using l by (rule nth_map)
  also have "\<dots> = fromCharCode (97 + v)"
    by (simp add: n b block_code_def bid_validateBlock)
  finally show ?thesis using s by simp
qed

lemma new_World_run:
  assumes "finalHeight noise3D 15 2 2 = 8"
    "rnd = (\<lambda>k. 1 / 2) \<and> v = 0 \<or> rnd = (\<lambda>k. 0) \<and> v = 3"
  shows "\<exists>w s. new_World noise3D perlin rnd 5 5 15 = Inr w \<and> toNetworkString w = Inr s \<and>
           s ! 191 = fromCharCode (97 + v)"
proof -
  let ?w0 = "\<lparr> sx = 5, sy = 5, sz = 15, blocks = [], lightmap = [],
                spawnPoint = (0, 0, 0), renderer = None \<rparr>"
  from generateTerrain_try_run[of ?w0 noise3D rnd v perlin] assms obtain bs where
    1: "generateTerrain_try ?w0 noise3D perlin rnd 5 5 15 = Inr bs" "grid_full bs 5 5 15"
       "cell_id bs 2 2 11 = Inr (Some v)"
    by auto
  from spawn_platform_keeps[OF 1(2,3)] obtain bs' where
    2: "spawn_platform bs 2 2 9 = Inr bs'" "grid_full bs' 5 5 15" "cell_id bs' 2 2 11 = Inr (Some v)"
    by blast
  let ?w2 = "?w0 \<lparr> blocks := bs' \<rparr>"
  have 3: "findSpawnPoint (?w0 \<lparr> blocks := bs \<rparr>) = Inr (?w2, (2, 2, 9))"
    by (simp add: findSpawnPoint_def Let_def spawnZ_15 2)
  have h: "grid_has bs' 2 2" by (rule grid_full_has[OF 2(2)]) simp_all
  have 4: "\<exists>b. getBlock ?w2 2 2 9 = Inr b"
    by (simp add: getBlock_def grid_get_opt_get[OF h])
  let ?w3 = "?w2 \<lparr> spawnPoint := (of_int 2, of_int 2, of_int 9),
                    lightmap := replicate (nat 5) (replicate (nat 5) 0) \<rparr>"
  have "\<exists>lm. updateLighting ?w3 = Inr (?w3 \<lparr> lightmap := lm \<rparr>)"
    by (rule updateLighting_full) (simp_all add: 2)
  then obtain lm where 5: "updateLighting ?w3 = Inr (?w3 \<lparr> lightmap := lm \<rparr>)" by blast
  from 4 obtain b where 6: "getBlock ?w2 2 2 9 = Inr b" by blast
  have 7: "new_World noise3D perlin rnd 5 5 15 = Inr (?w3 \<lparr> lightmap := lm \<rparr>)"
    using 3 5 6 by (simp add: new_World_def Let_def generateTerrain_def 1)
  from toNetworkString_full[of "?w3 \<lparr> lightmap := lm \<rparr>" v] 2 obtain s where
    "toNetworkString (?w3 \<lparr> lightmap := lm \<rparr>) = Inr s" "s ! 191 = fromCharCode (97 + v)"
    by auto
  with 7 show ?thesis by blast
qed

text \<open>
  C1. The claim says that two runs of terrain generation with the same seed and sizes serialize
  to identical strings.  The seed only reaches the simplex noise: whether a tree is planted on a
  column above the water level is decided by \<open>Math.random() < 0.0045\<close>, which no seed controls.
  For a \<open>5 \<times> 5 \<times> 15\<close> world whose centre column has height 8 (as it has when the noise is 0
  there), a run whose random numbers are all \<open>1/2\<close> plants no tree and a run whose random
  numbers are all 0 plants one at the centre: both constructors succeed, and the serialized
  worlds differ at cell \<open>(2, 2, 11)\<close> (index 191), AIR (\<open>a\<close>) in the first and WOOD (\<open>d\<close>) in
  the second, for the same noise functions.
\<close>

theorem generateTerrain_random_trees:
  assumes "finalHeight noise3D 15 2 2 = 8"
  shows "\<exists>w w' s s'. new_World noise3D perlin (\<lambda>k. 1 / 2) 5 5 15 = Inr w \<and>
           new_World noise3D perlin (\<lambda>k. 0) 5 5 15 = Inr w' \<and>
           toNetworkString w = Inr s \<and> toNetworkString w' = Inr s' \<and>
           s ! 191 = fromCharCode 97 \<and> s' ! 191 = fromCharCode 100 \<and> s \<noteq> s'"
proof -
  from new_World_run[OF assms, of "\<lambda>k. 1 / 2" 0 perlin] obtain w s where
    1: "new_World noise3D perlin (\<lambda>k. 1 / 2) 5 5 15 = Inr w" "toNetworkString w = Inr s"
       "s ! 191 = fromCharCode 97"
    by auto
  from new_World_run[OF assms, of "\<lambda>k. 0" 3 perlin] obtain w' s' where
    2: "new_World noise3D perlin (\<lambda>k. 0) 5 5 15 = Inr w'" "toNetworkString w' = Inr s'"
       "s' ! 191 = fromCharCode 100"
    by auto
  have "fromCharCode 97 \<noteq> fromCharCode 100" by (simp add: fromCharCode_def)
  with 1(3) 2(3) have "s \<noteq> s'" by auto
  with 1 2 show ?thesis by blast
qed

theorem generateTerrain_random_trees_witness:
  "finalHeight flat_noise 15 2 2 = 8 \<and>
   (\<exists>w w' s s'. new_World flat_noise flat_noise (\<lambda>k. 1 / 2) 5 5 15 = Inr w \<and>
      new_World flat_noise flat_noise (\<lambda>k. 0) 5 5 15 = Inr w' \<and>
      toNetworkString w = Inr s \<and> toNetworkString w' = Inr s' \<and>
      s ! 191 = fromCharCode 97 \<and> s' ! 191 = fromCharCode 100 \<and> s \<noteq> s')"
proof -
  have "[0..<4] = [0, 1, 2, 3]" by (simp add: upt_rec)
  then have h: "finalHeight flat_noise 15 2 2 = 8"
    by (simp add: finalHeight_def octave_def flat_noise_def floor_eq_iff)
  from generateTerrain_random_trees[OF h, of flat_noise] h show ?thesis by simp
qed

end
